theory Spec2Isabelle
  imports Main "HOL-Library.Word"
begin

unbundle bit_operations_syntax

section \<open>memtools: pattern scanning, verification and patching\<close>

text \<open>
  A shallow embedding of \<^verbatim>\<open>memtools.h\<close> (struct \<^verbatim>\<open>PatternScan\<close>) and of the earlier
  revision of the same header (struct \<^verbatim>\<open>DataScan\<close>). Pointers and \<^verbatim>\<open>SIZE_T\<close> values are
  64-bit words, the process memory is a function from addresses to bytes, a C++
  \<^verbatim>\<open>throw\<close> is a value \<open>Inl e\<close>, and behaviour the C++ standard leaves undefined is
  a value \<open>Inl e\<close> as well, with an \<open>e\<close> whose name starts with \<open>UB\<close>. The host
  calls (\<^verbatim>\<open>VirtualQuery\<close>, \<^verbatim>\<open>VirtualProtect\<close>, \<^verbatim>\<open>GetModuleInformation\<close>) are
  parameters of the functions that make them.
\<close>

subsection \<open>Errors, constants and memory\<close>

datatype error =
    Invalid_hexadecimal        \<comment> \<open>\<^verbatim>\<open>throw "Invalid hexadecimal."\<close>\<close>
  | Target_is_nullptr          \<comment> \<open>\<^verbatim>\<open>throw "Target is nullptr."\<close>\<close>
  | Patch_Bytes_are_nullptr    \<comment> \<open>\<^verbatim>\<open>throw "Patch Bytes are nullptr."\<close>\<close>
  | Patch_Bytes_are_size_0     \<comment> \<open>\<^verbatim>\<open>throw "Patch Bytes are size 0."\<close>\<close>
  | UB_addrStore_empty         \<comment> \<open>\<^verbatim>\<open>back()\<close> and \<^verbatim>\<open>pop_back()\<close> of an empty \<^verbatim>\<open>std::vector\<close>\<close>
  | UB_Bytes_out_of_range      \<comment> \<open>\<^verbatim>\<open>Bytes[k]\<close> with \<open>k\<close> outside the array\<close>
  | UB_null_string             \<comment> \<open>\<^verbatim>\<open>strcmp\<close> or \<^verbatim>\<open>wcscmp\<close> against a null pointer\<close>
  | UB_memcpy_from_nullptr     \<comment> \<open>\<^verbatim>\<open>memcpy\<close> from a null \<^verbatim>\<open>OriginalBytes\<close>\<close>

definition MAX_PATTERN_LENGTH :: nat where "MAX_PATTERN_LENGTH = 128"
definition MAX_INSTRUCTION_LENGTH :: nat where "MAX_INSTRUCTION_LENGTH = 16"
definition CHAR_0 :: int where "CHAR_0 = 0x30"
definition CHAR_9 :: int where "CHAR_9 = 0x39"
definition CHAR_A :: int where "CHAR_A = 0x41"
definition CHAR_F :: int where "CHAR_F = 0x46"
definition HEXVAL_A :: int where "HEXVAL_A = 10"
definition HEXPOW_1 :: int where "HEXPOW_1 = 0x01"
definition HEXPOW_2 :: int where "HEXPOW_2 = 0x10"

type_synonym addr = "64 word"
type_synonym memory = "64 word \<Rightarrow> 8 word"

subsection \<open>Byte and Pattern\<close>

record Byte =
  IsWildcard :: bool
  Value :: "8 word"

text \<open>
  \<^verbatim>\<open>Byte Bytes[MAX_PATTERN_LENGTH]\<close> is a list; the constructors build it with
  \<^verbatim>\<open>MAX_PATTERN_LENGTH\<close> entries and never change its length.
\<close>

record Pattern =
  Bytes :: "Byte list"
  Size :: "64 word"

definition Byte_default :: Byte where
  "Byte_default = \<lparr>IsWildcard = False, Value = 0\<rparr>"

text \<open>\<^verbatim>\<open>constexpr Pattern() : Bytes(), Size(0) {}\<close>\<close>

definition Pattern_default :: Pattern where
  "Pattern_default = \<lparr>Bytes = replicate MAX_PATTERN_LENGTH Byte_default, Size = 0\<rparr>"

definition Pattern_wf :: "Pattern \<Rightarrow> bool" where
  "Pattern_wf p = (length (Bytes p) = MAX_PATTERN_LENGTH \<and> unat (Size p) \<le> MAX_PATTERN_LENGTH)"

text \<open>
  \<^verbatim>\<open>aPattern[i]\<close> of a \<^verbatim>\<open>const char*\<close>: the text is the list of the characters of the
  buffer, and the buffer ends with the terminating NUL, which the list leaves out. The
  constructor reads no index beyond the first NUL. A character is read as its code in
  0..255; for a code of 0x80 or more a signed \<^verbatim>\<open>char\<close> is negative instead, and every
  comparison of the constructor has the same outcome on both readings.
\<close>

definition char_at :: "string \<Rightarrow> nat \<Rightarrow> int" where
  "char_at s i = (if i < length s then int (of_char (s ! i)) else 0)"

text \<open>\<^verbatim>\<open>while (aPattern[len]) { len++; }\<close>\<close>

function strlen_from :: "string \<Rightarrow> nat \<Rightarrow> nat" where
  "strlen_from s len = (if char_at s len \<noteq> 0 then strlen_from s (len + 1) else len)"
  by pat_completeness auto
termination
  by (relation "measure (\<lambda>(s, len). length s - len)") (auto simp: char_at_def split: if_splits)

declare strlen_from.simps [simp del]

text \<open>
  The \<^verbatim>\<open>for\<close> loop of \<^verbatim>\<open>Pattern::Pattern(const char*)\<close>: \<open>this\<close> is the pattern under
  construction, \<open>i\<close> the index into the text and \<open>j\<close> the index of the next token.
  \<^verbatim>\<open>continue\<close> is the recursive call at \<open>i + 1\<close> (after the \<^verbatim>\<open>i++\<close> of a two-character
  token, at \<open>i + 2\<close>), \<^verbatim>\<open>break\<close> and the end of the loop return \<open>this\<close>.
\<close>

function Pattern_loop :: "string \<Rightarrow> nat \<Rightarrow> nat \<Rightarrow> Pattern \<Rightarrow> nat \<Rightarrow> error + Pattern" where
  "Pattern_loop aPattern len i this j =
    (if \<not> i < len then Inr this
     else if Size this \<ge> of_nat MAX_PATTERN_LENGTH then Inr this
     else if char_at aPattern i = int (of_char CHR '' '') then Pattern_loop aPattern len (i + 1) this j
     else if char_at aPattern i = int (of_char CHR ''<'') then Pattern_loop aPattern len (i + 1) this j
     else if char_at aPattern i = int (of_char CHR ''>'') then Pattern_loop aPattern len (i + 1) this j
     else if char_at aPattern i = int (of_char CHR ''?'') then
       (let this' = this\<lparr>Bytes := (Bytes this)[j := \<lparr>IsWildcard = True, Value = 0\<rparr>],
                          Size := Size this + 1\<rparr>
        in if i + 1 < len \<and> char_at aPattern (i + 1) = int (of_char CHR ''?'')
           then Pattern_loop aPattern len (i + 2) this' (j + 1)
           else Pattern_loop aPattern len (i + 1) this' (j + 1))
     else if (char_at aPattern i \<ge> CHAR_0 \<and> char_at aPattern i \<le> CHAR_9)
           \<or> (char_at aPattern i \<ge> CHAR_A \<and> char_at aPattern i \<le> CHAR_F) then
       (if (i + 1 < len \<and> (char_at aPattern (i + 1) \<ge> CHAR_0 \<and> char_at aPattern (i + 1) \<le> CHAR_9))
           \<or> (char_at aPattern (i + 1) \<ge> CHAR_A \<and> char_at aPattern (i + 1) \<le> CHAR_F)
        then
          (let val = (0 :: 8 word);
               val = (if char_at aPattern i \<le> CHAR_9
                      then val + of_int ((char_at aPattern i - CHAR_0) * HEXPOW_2)
                      else val + of_int (((char_at aPattern i - CHAR_A) + HEXVAL_A) * HEXPOW_2));
               val = (if char_at aPattern (i + 1) \<le> CHAR_9
                      then val + of_int ((char_at aPattern (i + 1) - CHAR_0) * HEXPOW_1)
                      else val + of_int (((char_at aPattern (i + 1) - CHAR_A) + HEXVAL_A) * HEXPOW_1))
           in Pattern_loop aPattern len (i + 2)
                (this\<lparr>Bytes := (Bytes this)[j := \<lparr>IsWildcard = False, Value = val\<rparr>],
                       Size := Size this + 1\<rparr>) (j + 1))
        else
          (let val = (0 :: 8 word);
               val = (if char_at aPattern i \<le> CHAR_9
                      then val + of_int ((char_at aPattern i - CHAR_0) * HEXPOW_1)
                      else val + of_int (((char_at aPattern i - CHAR_A) + HEXVAL_A) * HEXPOW_1))
           in Pattern_loop aPattern len (i + 1)
                (this\<lparr>Bytes := (Bytes this)[j := \<lparr>IsWildcard = False, Value = val\<rparr>],
                       Size := Size this + 1\<rparr>) (j + 1)))
     else Inl Invalid_hexadecimal)"
  by pat_completeness auto
termination
  by (relation "measure (\<lambda>(aPattern, len, i, this, j). len - i)") auto

declare Pattern_loop.simps [simp del]

definition Pattern_ctor :: "string \<Rightarrow> error + Pattern" where
  "Pattern_ctor aPattern =
     Pattern_loop aPattern (strlen_from aPattern 0) 0 Pattern_default 0"

subsection \<open>The matcher\<close>

text \<open>
  \<^verbatim>\<open>operator==(const Pattern& lhs, const PBYTE rhs)\<close>: \<open>rhs[i]\<close> is the byte of the
  memory at \<open>rhs + i\<close>. The counter runs below \<open>lhs.Size\<close>, which is below \<open>2^64\<close>,
  so it is a natural number that never wraps.
\<close>

function Pattern_eq_loop :: "Pattern \<Rightarrow> memory \<Rightarrow> addr \<Rightarrow> nat \<Rightarrow> bool" where
  "Pattern_eq_loop lhs mem rhs i =
     (if i < unat (Size lhs) then
        (if \<not> IsWildcard (Bytes lhs ! i) \<and> Value (Bytes lhs ! i) \<noteq> mem (rhs + of_nat i)
         then False
         else Pattern_eq_loop lhs mem rhs (i + 1))
      else True)"
  by pat_completeness auto
termination
  by (relation "measure (\<lambda>(lhs, mem, rhs, i). unat (Size lhs) - i)") auto

declare Pattern_eq_loop.simps [simp del]

definition Pattern_eq :: "Pattern \<Rightarrow> memory \<Rightarrow> addr \<Rightarrow> bool" where
  "Pattern_eq lhs mem rhs = Pattern_eq_loop lhs mem rhs 0"

text \<open>\<^verbatim>\<open>memcpy(dst, src, n)\<close> from a buffer held as a list into the memory.\<close>

definition memcpy_to :: "memory \<Rightarrow> addr \<Rightarrow> 8 word list \<Rightarrow> memory" where
  "memcpy_to mem dst bs = (\<lambda>a. if unat (a - dst) < length bs then bs ! unat (a - dst) else mem a)"

text \<open>The \<open>n\<close> bytes of the memory from \<open>src\<close> on, as \<^verbatim>\<open>memcpy\<close> reads them.\<close>

definition memcpy_from :: "memory \<Rightarrow> addr \<Rightarrow> nat \<Rightarrow> 8 word list" where
  "memcpy_from mem src n = map (\<lambda>i. mem (src + of_nat i)) [0..<n]"


subsection \<open>Reading the memory\<close>

text \<open>
  The interpreter reads the memory unchecked; the memory is a total function, so a read
  always has a value. Integers are little-endian.
\<close>

definition read16 :: "memory \<Rightarrow> addr \<Rightarrow> 16 word" where
  "read16 mem a = ucast (mem a) OR push_bit 8 (ucast (mem (a + 1)))"

definition read32 :: "memory \<Rightarrow> addr \<Rightarrow> 32 word" where
  "read32 mem a =
     ucast (mem a) OR push_bit 8 (ucast (mem (a + 1))) OR push_bit 16 (ucast (mem (a + 2)))
       OR push_bit 24 (ucast (mem (a + 3)))"

definition read64 :: "memory \<Rightarrow> addr \<Rightarrow> 64 word" where
  "read64 mem a =
     ucast (read32 mem a) OR push_bit 32 (ucast (read32 mem (a + 4)))"

text \<open>
  \<^verbatim>\<open>FollowRelativeAddress\<close>: \<^verbatim>\<open>(PBYTE)aAddress + jmpOffset + 4\<close> with the signed 32-bit
  \<^verbatim>\<open>jmpOffset\<close> read at \<^verbatim>\<open>aAddress\<close>.
\<close>

definition FollowRelativeAddress :: "memory \<Rightarrow> addr \<Rightarrow> addr" where
  "FollowRelativeAddress mem aAddress =
     (let jmpOffset = read32 mem aAddress in aAddress + scast jmpOffset + 4)"

text \<open>
  \<^verbatim>\<open>strcmp(p, s) == 0\<close> and \<^verbatim>\<open>wcscmp(p, s) == 0\<close>, where the list holds the characters
  of \<open>s\<close> and the terminating NUL follows the list (a zero in the list ends \<open>s\<close>
  earlier). A \<^verbatim>\<open>wchar_t\<close> has 16 bits.
\<close>

fun strcmp_eq :: "memory \<Rightarrow> addr \<Rightarrow> 8 word list \<Rightarrow> bool" where
  "strcmp_eq mem p [] = (mem p = 0)"
| "strcmp_eq mem p (c # cs) =
     (if c = 0 then mem p = 0 else mem p = c \<and> strcmp_eq mem (p + 1) cs)"

fun wcscmp_eq :: "memory \<Rightarrow> addr \<Rightarrow> 16 word list \<Rightarrow> bool" where
  "wcscmp_eq mem p [] = (read16 mem p = 0)"
| "wcscmp_eq mem p (c # cs) =
     (if c = 0 then read16 mem p = 0 else read16 mem p = c \<and> wcscmp_eq mem (p + 2) cs)"

subsection \<open>Instructions\<close>

datatype EOperation =
    NONE | offset | follow | strcmp | wcscmp | cmpi8 | cmpi16 | cmpi32 | cmpi64
  | pushaddr | popaddr | advwcard

text \<open>
  \<^verbatim>\<open>struct Instruction\<close>. The fields \<^verbatim>\<open>Value\<close>, \<^verbatim>\<open>String\<close> and \<^verbatim>\<open>WString\<close> are
  \<open>InstValue\<close>, \<open>InstString\<close> and \<open>InstWString\<close> here (\<open>Value\<close> is a field of
  \<open>Byte\<close> already); a null \<^verbatim>\<open>String\<close> or \<^verbatim>\<open>WString\<close> is \<open>None\<close>. In the earlier
  revision the three share a \<^verbatim>\<open>union\<close>, and reading \<^verbatim>\<open>String\<close> while the union holds
  \<^verbatim>\<open>Value\<close> is \<open>None\<close> as well.
\<close>

record Instruction =
  Operation :: EOperation
  InstValue :: "64 word"
  InstString :: "8 word list option"
  InstWString :: "16 word list option"

definition Instruction_default :: Instruction where
  "Instruction_default =
     \<lparr>Operation = NONE, InstValue = 0, InstString = None, InstWString = None\<rparr>"

definition Instruction_op :: "EOperation \<Rightarrow> Instruction" where
  "Instruction_op aOp = \<lparr>Operation = aOp, InstValue = 0, InstString = None, InstWString = None\<rparr>"

definition Instruction_value :: "EOperation \<Rightarrow> 64 word \<Rightarrow> Instruction" where
  "Instruction_value aOp aValue =
     \<lparr>Operation = aOp, InstValue = aValue, InstString = None, InstWString = None\<rparr>"

definition Instruction_str :: "EOperation \<Rightarrow> 8 word list option \<Rightarrow> Instruction" where
  "Instruction_str aOp aStr =
     \<lparr>Operation = aOp, InstValue = 0, InstString = aStr, InstWString = None\<rparr>"

definition Instruction_wstr :: "EOperation \<Rightarrow> 16 word list option \<Rightarrow> Instruction" where
  "Instruction_wstr aOp aWStr =
     \<lparr>Operation = aOp, InstValue = 0, InstString = None, InstWString = aWStr\<rparr>"

definition Offset :: "64 word \<Rightarrow> Instruction" where
  "Offset aValue = Instruction_value offset aValue"

definition Follow :: Instruction where
  "Follow = Instruction_op follow"

definition Strcmp :: "8 word list option \<Rightarrow> Instruction" where
  "Strcmp aStr = Instruction_str strcmp aStr"

definition Wcscmp :: "16 word list option \<Rightarrow> Instruction" where
  "Wcscmp aWStr = Instruction_wstr wcscmp aWStr"

definition CmpI8 :: "64 word \<Rightarrow> Instruction" where
  "CmpI8 aValue = Instruction_value cmpi8 aValue"

definition CmpI16 :: "64 word \<Rightarrow> Instruction" where
  "CmpI16 aValue = Instruction_value cmpi16 aValue"

definition CmpI32 :: "64 word \<Rightarrow> Instruction" where
  "CmpI32 aValue = Instruction_value cmpi32 aValue"

definition CmpI64 :: "64 word \<Rightarrow> Instruction" where
  "CmpI64 aValue = Instruction_value cmpi64 aValue"

definition PushAddr :: Instruction where
  "PushAddr = Instruction_op pushaddr"

definition PopAddr :: Instruction where
  "PopAddr = Instruction_op popaddr"

text \<open>\<^verbatim>\<open>AdvWcard(aSets)\<close> stores \<^verbatim>\<open>max(1, aSets)\<close>, a signed comparison.\<close>

definition AdvWcard :: "64 word \<Rightarrow> Instruction" where
  "AdvWcard aSets = Instruction_value advwcard (if 1 <s aSets then aSets else 1)"

subsection \<open>The interpreter of PatternScan\<close>

text \<open>
  The locals of one verification attempt: \<^verbatim>\<open>resultAddr\<close> (the cursor, null is \<open>0\<close>),
  \<^verbatim>\<open>instructionsFailed\<close>, \<^verbatim>\<open>addrStore\<close> (the last element of the list is
  \<^verbatim>\<open>back()\<close>) and \<^verbatim>\<open>offsetFromMatch\<close> (a signed 64-bit integer).
\<close>

record attempt =
  resultAddr :: addr
  instructionsFailed :: "32 word"
  addrStore :: "addr list"
  offsetFromMatch :: "64 word"

definition attempt_init :: "addr \<Rightarrow> attempt" where
  "attempt_init a =
     \<lparr>resultAddr = a, instructionsFailed = 0, addrStore = [], offsetFromMatch = 0\<rparr>"

text \<open>\<^verbatim>\<open>this->Assembly.Bytes[k]\<close> with a signed 64-bit index.\<close>

definition Bytes_at :: "Pattern \<Rightarrow> 64 word \<Rightarrow> error + Byte" where
  "Bytes_at asm k =
     (if 0 \<le> sint k \<and> nat (sint k) < length (Bytes asm)
      then Inr (Bytes asm ! nat (sint k))
      else Inl UB_Bytes_out_of_range)"


text \<open>
  The \<^verbatim>\<open>while\<close> loop of \<^verbatim>\<open>advwcard\<close>; the value is \<^verbatim>\<open>offsetFromMatch\<close> after it.
  \<^verbatim>\<open>(int64_t)this->Assembly.Size\<close> reads the same 64 bits as signed.
\<close>

function advwcard_while :: "Pattern \<Rightarrow> 64 word \<Rightarrow> bool \<Rightarrow> error + 64 word" where
  "advwcard_while asm off wasAtWildcard =
     (if off <s Size asm then
        (case Bytes_at asm off of
           Inl e \<Rightarrow> Inl e
         | Inr b \<Rightarrow>
             if wasAtWildcard \<and> IsWildcard b then advwcard_while asm (off + 1) wasAtWildcard
             else if \<not> wasAtWildcard \<and> IsWildcard b then Inr off
             else advwcard_while asm (off + 1) False)
      else Inr off)"
  by pat_completeness auto
termination
proof -
  have inc: "sint (off + 1) = sint off + 1" if "off <s sz" for off sz :: "64 word"
  proof -
    have a: "sint off < sint sz" using that by (simp add: word_sless_alt)
    have b: "sint sz < 2 ^ 63" using sint_lt [of sz] by simp
    have c: "- (2 ^ 63) \<le> sint off" using sint_ge [of off] by simp
    have "sint (off + 1) = signed_take_bit 63 (sint off + 1)"
      by (simp add: sint_word_add)
    also have "\<dots> = sint off + 1"
      using a b c by (intro signed_take_bit_int_eq_self) auto
    finally show ?thesis .
  qed
  show ?thesis
    by (relation "measure (\<lambda>(asm, off, was). nat (sint (Size asm) - sint off))")
       (auto simp: inc word_sless_alt)
qed

declare advwcard_while.simps [simp del]

text \<open>
  \<^verbatim>\<open>for (int64_t i = 0; i < inst.Value; i++)\<close>, with the number of rounds left as a
  natural number: \<open>nat (sint (InstValue inst))\<close> at the start.
\<close>

fun advwcard_for :: "Pattern \<Rightarrow> nat \<Rightarrow> 64 word \<Rightarrow> error + 64 word" where
  "advwcard_for asm 0 off = Inr off"
| "advwcard_for asm (Suc n) off =
     (case Bytes_at asm off of
        Inl e \<Rightarrow> Inl e
      | Inr b \<Rightarrow>
          (case advwcard_while asm off (IsWildcard b) of
             Inl e \<Rightarrow> Inl e
           | Inr off' \<Rightarrow> advwcard_for asm n off'))"

text \<open>
  The \<^verbatim>\<open>switch (op)\<close> of \<^verbatim>\<open>PatternScan::Scan\<close>, for the candidate at \<open>base + i\<close>.
  \<^verbatim>\<open>x += c ? 0 : 1\<close> on \<^verbatim>\<open>instructionsFailed\<close> is written with the condition
  negated.
\<close>

definition PatternScan_exec ::
  "Pattern \<Rightarrow> memory \<Rightarrow> addr \<Rightarrow> nat \<Rightarrow> Instruction \<Rightarrow> attempt \<Rightarrow> error + attempt" where
  "PatternScan_exec asm mem base i inst st =
     (case Operation inst of
        offset \<Rightarrow>
          Inr (st\<lparr>offsetFromMatch := offsetFromMatch st + InstValue inst,
                  resultAddr := resultAddr st + InstValue inst\<rparr>)
      | follow \<Rightarrow>
          Inr (st\<lparr>resultAddr := FollowRelativeAddress mem (resultAddr st)\<rparr>)
      | strcmp \<Rightarrow>
          (case InstString inst of
             None \<Rightarrow> Inl UB_null_string
           | Some s \<Rightarrow>
               Inr (st\<lparr>instructionsFailed := instructionsFailed st +
                     (if strcmp_eq mem (FollowRelativeAddress mem (resultAddr st)) s then 0 else 1)\<rparr>))
      | wcscmp \<Rightarrow>
          (case InstWString inst of
             None \<Rightarrow> Inl UB_null_string
           | Some s \<Rightarrow>
               Inr (st\<lparr>instructionsFailed := instructionsFailed st +
                     (if wcscmp_eq mem (FollowRelativeAddress mem (resultAddr st)) s then 0 else 1)\<rparr>))
      | cmpi8 \<Rightarrow>
          Inr (st\<lparr>instructionsFailed := instructionsFailed st +
                (if mem (resultAddr st) = ucast (InstValue inst) then 0 else 1)\<rparr>)
      | cmpi16 \<Rightarrow>
          Inr (st\<lparr>instructionsFailed := instructionsFailed st +
                (if read16 mem (resultAddr st) = ucast (InstValue inst) then 0 else 1)\<rparr>)
      | cmpi32 \<Rightarrow>
          Inr (st\<lparr>instructionsFailed := instructionsFailed st +
                (if read32 mem (resultAddr st) = ucast (InstValue inst) then 0 else 1)\<rparr>)
      | cmpi64 \<Rightarrow>
          Inr (st\<lparr>instructionsFailed := instructionsFailed st +
                (if read64 mem (resultAddr st) = InstValue inst then 0 else 1)\<rparr>)
      | pushaddr \<Rightarrow>
          Inr (st\<lparr>addrStore := addrStore st @ [resultAddr st]\<rparr>)
      | popaddr \<Rightarrow>
          (if addrStore st = [] then Inl UB_addrStore_empty
           else Inr (st\<lparr>resultAddr := last (addrStore st), addrStore := butlast (addrStore st)\<rparr>))
      | advwcard \<Rightarrow>
          (case advwcard_for asm (nat (sint (InstValue inst))) (offsetFromMatch st) of
             Inl e \<Rightarrow> Inl e
           | Inr off \<Rightarrow> Inr (st\<lparr>offsetFromMatch := off, resultAddr := base + of_nat i + off\<rparr>))
      | NONE \<Rightarrow> Inr st)"

text \<open>
  \<^verbatim>\<open>for (const Instruction& inst : this->Instructions)\<close> with its
  \<^verbatim>\<open>if (instructionsFailed) { resultAddr = nullptr; break; }\<close>.
\<close>

fun PatternScan_run ::
  "Pattern \<Rightarrow> memory \<Rightarrow> addr \<Rightarrow> nat \<Rightarrow> Instruction list \<Rightarrow> attempt \<Rightarrow> error + attempt" where
  "PatternScan_run asm mem base i [] st = Inr st"
| "PatternScan_run asm mem base i (inst # insts) st =
     (case PatternScan_exec asm mem base i inst st of
        Inl e \<Rightarrow> Inl e
      | Inr st' \<Rightarrow>
          if instructionsFailed st' \<noteq> 0 then Inr (st'\<lparr>resultAddr := 0\<rparr>)
          else PatternScan_run asm mem base i insts st')"

subsection \<open>PatternScan\<close>

record PatternScan =
  Assembly :: Pattern
  Instructions :: "Instruction list"
  Count :: nat

text \<open>
  The constructor fills the \<^verbatim>\<open>std::array\<close> of \<^verbatim>\<open>MAX_INSTRUCTION_LENGTH\<close> instructions
  with the arguments and default instructions after them. Its \<^verbatim>\<open>static_assert\<close> rejects
  more than \<^verbatim>\<open>MAX_INSTRUCTION_LENGTH\<close> arguments when the program is compiled: \<open>None\<close>.
\<close>

definition PatternScan_ctor :: "Pattern \<Rightarrow> Instruction list \<Rightarrow> PatternScan option" where
  "PatternScan_ctor aASM instrs =
     (if length instrs \<le> MAX_INSTRUCTION_LENGTH
      then Some \<lparr>Assembly = aASM,
                 Instructions = instrs @ replicate (MAX_INSTRUCTION_LENGTH - length instrs) Instruction_default,
                 Count = length instrs\<rparr>
      else None)"

text \<open>
  \<^verbatim>\<open>MEMORY_BASIC_INFORMATION\<close>, the fields that \<^verbatim>\<open>Scan\<close> reads, and the constants of the
  Windows SDK (\<^verbatim>\<open>winnt.h\<close>) that it compares them with. \<^verbatim>\<open>VirtualQuery\<close> is a function
  of the host: \<open>None\<close> when the call fails.
\<close>

record MEMORY_BASIC_INFORMATION =
  BaseAddress :: addr
  RegionSize :: "64 word"
  State :: "32 word"
  Protect :: "32 word"

definition MEM_COMMIT :: "32 word" where "MEM_COMMIT = 0x1000"
definition PAGE_READONLY :: "32 word" where "PAGE_READONLY = 0x02"
definition PAGE_READWRITE :: "32 word" where "PAGE_READWRITE = 0x04"
definition PAGE_EXECUTE_READ :: "32 word" where "PAGE_EXECUTE_READ = 0x20"
definition PAGE_EXECUTE_READWRITE :: "32 word" where "PAGE_EXECUTE_READWRITE = 0x40"

type_synonym VirtualQuery = "addr \<Rightarrow> MEMORY_BASIC_INFORMATION option"

text \<open>
  The three \<^verbatim>\<open>continue\<close> guards of \<^verbatim>\<open>PatternScan::Scan\<close>: a region passes them when
  none of them fires.
\<close>

definition PatternScan_accepts :: "Pattern \<Rightarrow> MEMORY_BASIC_INFORMATION \<Rightarrow> bool" where
  "PatternScan_accepts asm mbi =
     (if Size asm > RegionSize mbi then False
      else if State mbi \<noteq> MEM_COMMIT then False
      else if \<not> (Protect mbi = PAGE_EXECUTE_READ \<or> Protect mbi = PAGE_EXECUTE_READWRITE) then False
      else True)"

text \<open>
  \<^verbatim>\<open>for (uint64_t i = 0; i < end; i++)\<close> over the candidate offsets of one region;
  \<open>endv\<close> is \<^verbatim>\<open>end\<close>. The value is \<^verbatim>\<open>resultAddr\<close> after the loop. The second
  \<^verbatim>\<open>break\<close> leaves the loop when no instruction failed.
\<close>

function PatternScan_candidates ::
  "PatternScan \<Rightarrow> memory \<Rightarrow> addr \<Rightarrow> 64 word \<Rightarrow> nat \<Rightarrow> addr \<Rightarrow> error + addr" where
  "PatternScan_candidates this mem base endv i resultAddr0 =
     (if i < unat endv then
        (if Pattern_eq (Assembly this) mem (base + of_nat i) then
           (case PatternScan_run (Assembly this) mem base i (Instructions this)
                   (attempt_init (base + of_nat i)) of
              Inl e \<Rightarrow> Inl e
            | Inr st \<Rightarrow>
                if instructionsFailed st = 0 then Inr (resultAddr st)
                else PatternScan_candidates this mem base endv (i + 1) (resultAddr st))
         else PatternScan_candidates this mem base endv (i + 1) resultAddr0)
      else Inr resultAddr0)"
  by pat_completeness auto
termination
  by (relation "measure (\<lambda>(this, mem, base, endv, i, r). unat endv - i)") auto

declare PatternScan_candidates.simps [simp del]

text \<open>
  \<^verbatim>\<open>while (resultAddr == nullptr)\<close>. Nothing in the code bounds the number of regions
  the host reports, so the loop takes fuel, one unit for each test of the loop
  condition: \<open>None\<close> is the loop still running when the fuel is used up.
  \<^verbatim>\<open>ENABLE_PATTERN_CACHING\<close> is not defined, so the cache is not compiled.
\<close>

fun PatternScan_while ::
  "nat \<Rightarrow> VirtualQuery \<Rightarrow> memory \<Rightarrow> PatternScan \<Rightarrow> addr \<Rightarrow> addr \<Rightarrow> (error + addr) option" where
  "PatternScan_while 0 vq mem this addr resultAddr0 = None"
| "PatternScan_while (Suc fuel) vq mem this addr resultAddr0 =
     (if resultAddr0 \<noteq> 0 then Some (Inr resultAddr0)
      else
        (case vq addr of
           None \<Rightarrow> Some (Inr resultAddr0)
         | Some mbi \<Rightarrow>
             if \<not> PatternScan_accepts (Assembly this) mbi
             then PatternScan_while fuel vq mem this (addr + RegionSize mbi) resultAddr0
             else
               (case PatternScan_candidates this mem (BaseAddress mbi)
                       (RegionSize mbi - Size (Assembly this)) 0 resultAddr0 of
                  Inl e \<Rightarrow> Some (Inl e)
                | Inr r \<Rightarrow> PatternScan_while fuel vq mem this (addr + RegionSize mbi) r)))"

text \<open>\<^verbatim>\<open>PatternScan::Scan\<close>; the result \<open>0\<close> is \<^verbatim>\<open>nullptr\<close>, "not found".\<close>

definition PatternScan_Scan ::
  "nat \<Rightarrow> VirtualQuery \<Rightarrow> memory \<Rightarrow> PatternScan \<Rightarrow> (error + addr) option" where
  "PatternScan_Scan fuel vq mem this =
     (if Size (Assembly this) = 0 then Some (Inr 0)
      else PatternScan_while fuel vq mem this 0 0)"


subsection \<open>DataScan, the earlier revision\<close>

text \<open>
  The \<^verbatim>\<open>switch (op)\<close> of \<^verbatim>\<open>DataScan::Scan\<close>. It has no \<^verbatim>\<open>advwcard\<close> and no
  \<^verbatim>\<open>offsetFromMatch\<close>, \<^verbatim>\<open>follow\<close> adds \<^verbatim>\<open>inst.Value\<close> first, and an operation
  without a \<^verbatim>\<open>case\<close> does nothing.
\<close>

definition DataScan_exec :: "memory \<Rightarrow> Instruction \<Rightarrow> attempt \<Rightarrow> error + attempt" where
  "DataScan_exec mem inst st =
     (case Operation inst of
        offset \<Rightarrow>
          Inr (st\<lparr>resultAddr := resultAddr st + InstValue inst\<rparr>)
      | follow \<Rightarrow>
          Inr (st\<lparr>resultAddr := FollowRelativeAddress mem (resultAddr st + InstValue inst)\<rparr>)
      | strcmp \<Rightarrow>
          (case InstString inst of
             None \<Rightarrow> Inl UB_null_string
           | Some s \<Rightarrow>
               Inr (st\<lparr>instructionsFailed := instructionsFailed st +
                     (if strcmp_eq mem (FollowRelativeAddress mem (resultAddr st)) s then 0 else 1)\<rparr>))
      | wcscmp \<Rightarrow>
          (case InstWString inst of
             None \<Rightarrow> Inl UB_null_string
           | Some s \<Rightarrow>
               Inr (st\<lparr>instructionsFailed := instructionsFailed st +
                     (if wcscmp_eq mem (FollowRelativeAddress mem (resultAddr st)) s then 0 else 1)\<rparr>))
      | cmpi8 \<Rightarrow>
          Inr (st\<lparr>instructionsFailed := instructionsFailed st +
                (if mem (resultAddr st) = ucast (InstValue inst) then 0 else 1)\<rparr>)
      | cmpi16 \<Rightarrow>
          Inr (st\<lparr>instructionsFailed := instructionsFailed st +
                (if read16 mem (resultAddr st) = ucast (InstValue inst) then 0 else 1)\<rparr>)
      | cmpi32 \<Rightarrow>
          Inr (st\<lparr>instructionsFailed := instructionsFailed st +
                (if read32 mem (resultAddr st) = ucast (InstValue inst) then 0 else 1)\<rparr>)
      | cmpi64 \<Rightarrow>
          Inr (st\<lparr>instructionsFailed := instructionsFailed st +
                (if read64 mem (resultAddr st) = InstValue inst then 0 else 1)\<rparr>)
      | pushaddr \<Rightarrow>
          Inr (st\<lparr>addrStore := addrStore st @ [resultAddr st]\<rparr>)
      | popaddr \<Rightarrow>
          (if addrStore st = [] then Inl UB_addrStore_empty
           else Inr (st\<lparr>resultAddr := last (addrStore st), addrStore := butlast (addrStore st)\<rparr>))
      | _ \<Rightarrow> Inr st)"

fun DataScan_run :: "memory \<Rightarrow> Instruction list \<Rightarrow> attempt \<Rightarrow> error + attempt" where
  "DataScan_run mem [] st = Inr st"
| "DataScan_run mem (inst # insts) st =
     (case DataScan_exec mem inst st of
        Inl e \<Rightarrow> Inl e
      | Inr st' \<Rightarrow>
          if instructionsFailed st' \<noteq> 0 then Inr (st'\<lparr>resultAddr := 0\<rparr>)
          else DataScan_run mem insts st')"

text \<open>
  \<^verbatim>\<open>struct DataScan\<close>: the fields \<^verbatim>\<open>Assembly\<close> and \<^verbatim>\<open>Instructions\<close>, a
  \<^verbatim>\<open>std::vector\<close> that the constructor fills with the arguments.
\<close>

record DataScan =
  DS_Assembly :: Pattern
  DS_Instructions :: "Instruction list"

definition DataScan_ctor :: "Pattern \<Rightarrow> Instruction list \<Rightarrow> DataScan" where
  "DataScan_ctor aASM aInstructions = \<lparr>DS_Assembly = aASM, DS_Instructions = aInstructions\<rparr>"

text \<open>\<^verbatim>\<open>MODULEINFO\<close> as \<^verbatim>\<open>GetModuleInformation\<close> fills it.\<close>

record MODULEINFO =
  lpBaseOfDll :: addr
  SizeOfImage :: "32 word"

definition DataScan_accepts :: "Pattern \<Rightarrow> MEMORY_BASIC_INFORMATION \<Rightarrow> bool" where
  "DataScan_accepts asm mbi =
     (if Size asm > RegionSize mbi then False
      else if State mbi \<noteq> MEM_COMMIT then False
      else if \<not> ((Protect mbi AND PAGE_READONLY) = PAGE_READONLY \<or>
                  (Protect mbi AND PAGE_READWRITE) = PAGE_READWRITE \<or>
                  (Protect mbi AND PAGE_EXECUTE_READ) = PAGE_EXECUTE_READ \<or>
                  (Protect mbi AND PAGE_EXECUTE_READWRITE) = PAGE_EXECUTE_READWRITE) then False
      else True)"

function DataScan_candidates ::
  "DataScan \<Rightarrow> memory \<Rightarrow> addr \<Rightarrow> 64 word \<Rightarrow> nat \<Rightarrow> addr \<Rightarrow> error + addr" where
  "DataScan_candidates this mem base endv i resultAddr0 =
     (if i < unat endv then
        (if Pattern_eq (DS_Assembly this) mem (base + of_nat i) then
           (case DataScan_run mem (DS_Instructions this) (attempt_init (base + of_nat i)) of
              Inl e \<Rightarrow> Inl e
            | Inr st \<Rightarrow>
                if instructionsFailed st = 0 then Inr (resultAddr st)
                else DataScan_candidates this mem base endv (i + 1) (resultAddr st))
         else DataScan_candidates this mem base endv (i + 1) resultAddr0)
      else Inr resultAddr0)"
  by pat_completeness auto
termination
  by (relation "measure (\<lambda>(this, mem, base, endv, i, r). unat endv - i)") auto

declare DataScan_candidates.simps [simp del]

text \<open>
  \<^verbatim>\<open>while (resultAddr == nullptr)\<close> of \<^verbatim>\<open>DataScan::Scan\<close>, with fuel as above. The
  second \<^verbatim>\<open>break\<close> leaves the loop when \<^verbatim>\<open>addr\<close> is outside the module.
\<close>

fun DataScan_while ::
  "nat \<Rightarrow> VirtualQuery \<Rightarrow> MODULEINFO \<Rightarrow> memory \<Rightarrow> DataScan \<Rightarrow> addr \<Rightarrow> addr
     \<Rightarrow> (error + addr) option" where
  "DataScan_while 0 vq modInfo mem this addr resultAddr0 = None"
| "DataScan_while (Suc fuel) vq modInfo mem this addr resultAddr0 =
     (if resultAddr0 \<noteq> 0 then Some (Inr resultAddr0)
      else
        (case vq addr of
           None \<Rightarrow> Some (Inr resultAddr0)
         | Some mbi \<Rightarrow>
             if \<not> (addr \<ge> lpBaseOfDll modInfo
                   \<and> addr \<le> lpBaseOfDll modInfo + ucast (SizeOfImage modInfo))
             then Some (Inr resultAddr0)
             else if \<not> DataScan_accepts (DS_Assembly this) mbi
             then DataScan_while fuel vq modInfo mem this (addr + RegionSize mbi) resultAddr0
             else
               (case DataScan_candidates this mem (BaseAddress mbi)
                       (RegionSize mbi - Size (DS_Assembly this)) 0 resultAddr0 of
                  Inl e \<Rightarrow> Some (Inl e)
                | Inr r \<Rightarrow> DataScan_while fuel vq modInfo mem this (addr + RegionSize mbi) r)))"

definition DataScan_Scan ::
  "nat \<Rightarrow> VirtualQuery \<Rightarrow> MODULEINFO \<Rightarrow> memory \<Rightarrow> DataScan \<Rightarrow> (error + addr) option" where
  "DataScan_Scan fuel vq modInfo mem this =
     (if Size (DS_Assembly this) = 0 then Some (Inr 0)
      else DataScan_while fuel vq modInfo mem this (lpBaseOfDll modInfo) 0)"

subsection \<open>Patch\<close>

text \<open>
  \<^verbatim>\<open>struct Patch\<close>; the field \<^verbatim>\<open>Size\<close> is \<open>PatchSize\<close> here, a null
  \<^verbatim>\<open>OriginalBytes\<close> is \<open>None\<close>. The patch bytes are the list of the bytes of the
  caller's buffer, which the terminating NUL follows; \<^verbatim>\<open>strlen\<close> counts the bytes
  before the first zero. \<^verbatim>\<open>VirtualProtect\<close> is a function of the host, one for each
  moment it is called at: \<open>Some oldProtect\<close> when the call succeeds. The calls that
  restore the protection do not touch the bytes and are left out.
\<close>

record Patch =
  Target :: addr
  OriginalBytes :: "8 word list option"
  PatchSize :: nat

type_synonym VirtualProtect = "addr \<Rightarrow> nat \<Rightarrow> 32 word \<Rightarrow> 32 word option"

definition strlen :: "8 word list \<Rightarrow> nat" where
  "strlen bs = length (takeWhile (\<lambda>b. b \<noteq> 0) bs)"

text \<open>The constructor: the patch and the memory after it, or the exception thrown.\<close>

definition Patch_ctor ::
  "VirtualProtect \<Rightarrow> memory \<Rightarrow> addr \<Rightarrow> 8 word list option \<Rightarrow> error + Patch \<times> memory" where
  "Patch_ctor vp mem aTarget aBytes =
     (if aTarget = 0 then Inl Target_is_nullptr
      else
        (case aBytes of
           None \<Rightarrow> Inl Patch_Bytes_are_nullptr
         | Some bs \<Rightarrow>
             (let this = \<lparr>Target = aTarget, OriginalBytes = None, PatchSize = strlen bs\<rparr>
              in if PatchSize this = 0 then Inl Patch_Bytes_are_size_0
                 else
                   (case vp aTarget (PatchSize this) PAGE_EXECUTE_READWRITE of
                      Some oldProtect \<Rightarrow>
                        Inr (this\<lparr>OriginalBytes := Some (memcpy_from mem aTarget (PatchSize this))\<rparr>,
                             memcpy_to mem aTarget (take (PatchSize this) bs))
                    | None \<Rightarrow> Inr (this, mem)))))"



subsection \<open>The pattern of the documentation\<close>

text \<open>\<^verbatim>\<open>"1A 2B ?? 4D"\<close>, the example of the README, as the constructor builds it.\<close>

definition example_tokens :: "Byte list" where
  "example_tokens =
     [\<lparr>IsWildcard = False, Value = 0x1A\<rparr>, \<lparr>IsWildcard = False, Value = 0x2B\<rparr>,
      \<lparr>IsWildcard = True, Value = 0\<rparr>, \<lparr>IsWildcard = False, Value = 0x4D\<rparr>]"

definition example_Pattern :: Pattern where
  "example_Pattern =
     \<lparr>Bytes = example_tokens @ replicate (MAX_PATTERN_LENGTH - 4) Byte_default, Size = 4\<rparr>"

subsection \<open>Scenarios\<close>


text \<open>A host that changes every protection, one that changes none, and a memory.\<close>

definition VirtualProtect_succeeds :: VirtualProtect where
  "VirtualProtect_succeeds lpAddress dwSize flNewProtect = Some PAGE_EXECUTE_READ"


definition memory_of_55 :: memory where
  "memory_of_55 a = 0x55"

text \<open>
  A host with two regions, the free region \<open>[0, 0x10000)\<close> and a committed region
  of \<open>sz\<close> bytes and protection \<open>prot\<close> from \<open>0x10000\<close> on, and a memory that is
  zero but for the bytes 1A 2B 00 4D at \<open>0x10FFC\<close>: the last four bytes of the region
  when \<open>sz\<close> is \<open>0x1000\<close>. \<^verbatim>\<open>MEM_FREE\<close> and \<^verbatim>\<open>PAGE_NOACCESS\<close> are the constants of
  the Windows SDK.
\<close>

definition MEM_FREE :: "32 word" where "MEM_FREE = 0x10000"
definition PAGE_NOACCESS :: "32 word" where "PAGE_NOACCESS = 0x01"

definition demo_memory :: memory where
  "demo_memory a =
     (if a = 0x10FFC then 0x1A else if a = 0x10FFD then 0x2B
      else if a = 0x10FFF then 0x4D else 0)"

definition demo_free :: MEMORY_BASIC_INFORMATION where
  "demo_free = \<lparr>BaseAddress = 0, RegionSize = 0x10000, State = MEM_FREE, Protect = PAGE_NOACCESS\<rparr>"

definition demo_region :: "64 word \<Rightarrow> 32 word \<Rightarrow> MEMORY_BASIC_INFORMATION" where
  "demo_region sz prot =
     \<lparr>BaseAddress = 0x10000, RegionSize = sz, State = MEM_COMMIT, Protect = prot\<rparr>"

definition demo_VirtualQuery :: "64 word \<Rightarrow> 32 word \<Rightarrow> VirtualQuery" where
  "demo_VirtualQuery sz prot lpAddress =
     (if lpAddress < 0x10000 then Some demo_free
      else if lpAddress < 0x10000 + sz then Some (demo_region sz prot)
      else None)"

text \<open>The module of the process, for \<^verbatim>\<open>DataScan\<close>: the committed region.\<close>

definition demo_modInfo :: MODULEINFO where
  "demo_modInfo = \<lparr>lpBaseOfDll = 0x10000, SizeOfImage = 0x2000\<rparr>"

text \<open>The scans for the pattern of the documentation with the given instructions.\<close>

definition demo_PatternScan :: "Instruction list \<Rightarrow> PatternScan" where
  "demo_PatternScan instrs =
     \<lparr>Assembly = example_Pattern,
      Instructions = instrs @ replicate (MAX_INSTRUCTION_LENGTH - length instrs) Instruction_default,
      Count = length instrs\<rparr>"

definition demo_DataScan :: "Instruction list \<Rightarrow> DataScan" where
  "demo_DataScan instrs = DataScan_ctor example_Pattern instrs"

subsection \<open>The pattern grammar, in the words of the specification\<close>

text \<open>
  The grammar of the pattern text as the documentation gives it, for comparison with
  the constructor: the characters of the text before its terminating NUL; spaces and
  the markers \<^verbatim>\<open><\<close> and \<^verbatim>\<open>>\<close> are skipped; \<^verbatim>\<open>??\<close> and \<^verbatim>\<open>?\<close> are one wildcard; two
  adjacent digits of \<^verbatim>\<open>0-9A-F\<close> are the byte \<open>high * 16 + low\<close> and a lone digit is
  the byte of its value; any other character is an error; and nothing is read once
  the capacity \<open>n\<close> is used up.
\<close>

definition c_string :: "string \<Rightarrow> string" where
  "c_string s = takeWhile (\<lambda>c. c \<noteq> CHR 0x00) s"

definition hex_digits :: string where
  "hex_digits = ''0123456789ABCDEF''"

definition is_hex_digit :: "char \<Rightarrow> bool" where
  "is_hex_digit c = (c \<in> set hex_digits)"

definition hex_value :: "char \<Rightarrow> nat" where
  "hex_value c = length (takeWhile (\<lambda>d. d \<noteq> c) hex_digits)"

definition is_skipped :: "char \<Rightarrow> bool" where
  "is_skipped c = (c = CHR '' '' \<or> c = CHR ''<'' \<or> c = CHR ''>'')"

definition byte_token :: "nat \<Rightarrow> Byte" where
  "byte_token v = \<lparr>IsWildcard = False, Value = of_nat v\<rparr>"

definition wildcard_token :: Byte where
  "wildcard_token = \<lparr>IsWildcard = True, Value = 0\<rparr>"

definition token_cons :: "Byte \<Rightarrow> error + Byte list \<Rightarrow> error + Byte list" where
  "token_cons b r = (case r of Inl e \<Rightarrow> Inl e | Inr ts \<Rightarrow> Inr (b # ts))"

fun grammar_tokens :: "nat \<Rightarrow> string \<Rightarrow> error + Byte list" where
  "grammar_tokens 0 cs = Inr []"
| "grammar_tokens (Suc n) [] = Inr []"
| "grammar_tokens (Suc n) [c] =
     (if is_skipped c then Inr []
      else if c = CHR ''?'' then Inr [wildcard_token]
      else if is_hex_digit c then Inr [byte_token (hex_value c)]
      else Inl Invalid_hexadecimal)"
| "grammar_tokens (Suc n) (c # d # ds) =
     (if is_skipped c then grammar_tokens (Suc n) (d # ds)
      else if c = CHR ''?'' then
        (if d = CHR ''?'' then token_cons wildcard_token (grammar_tokens n ds)
         else token_cons wildcard_token (grammar_tokens n (d # ds)))
      else if is_hex_digit c then
        (if is_hex_digit d
         then token_cons (byte_token (hex_value c * 16 + hex_value d)) (grammar_tokens n ds)
         else token_cons (byte_token (hex_value c)) (grammar_tokens n (d # ds)))
      else Inl Invalid_hexadecimal)"

text \<open>The Pattern that holds the tokens \<open>ts\<close>, default entries after them.\<close>

definition Pattern_of_tokens :: "Byte list \<Rightarrow> Pattern" where
  "Pattern_of_tokens ts =
     \<lparr>Bytes = ts @ replicate (MAX_PATTERN_LENGTH - length ts) Byte_default,
      Size = of_nat (length ts)\<rparr>"

definition compile_by_grammar :: "string \<Rightarrow> error + Pattern" where
  "compile_by_grammar text =
     (case grammar_tokens MAX_PATTERN_LENGTH (c_string text) of
        Inl e \<Rightarrow> Inl e
      | Inr ts \<Rightarrow> Inr (Pattern_of_tokens ts))"

definition is_pattern_char :: "char \<Rightarrow> bool" where
  "is_pattern_char c = (is_skipped c \<or> c = CHR ''?'' \<or> is_hex_digit c)"


section \<open>Properties\<close>

subsection \<open>The matcher\<close>

lemma Pattern_eq_loop_iff:
  "Pattern_eq_loop lhs mem rhs i =
     (\<forall>k. i \<le> k \<and> k < unat (Size lhs) \<longrightarrow>
        IsWildcard (Bytes lhs ! k) \<or> Value (Bytes lhs ! k) = mem (rhs + of_nat k))"
proof (induction lhs mem rhs i rule: Pattern_eq_loop.induct)
  case (1 lhs mem rhs i)
  show ?case
  proof (cases "i < unat (Size lhs)")
    case False
    then show ?thesis by (subst Pattern_eq_loop.simps) auto
  next
    case True
    show ?thesis
    proof (cases "\<not> IsWildcard (Bytes lhs ! i) \<and> Value (Bytes lhs ! i) \<noteq> mem (rhs + of_nat i)")
      case bad: True
      with True show ?thesis by (subst Pattern_eq_loop.simps) auto
    next
      case ok: False
      have "Pattern_eq_loop lhs mem rhs i = Pattern_eq_loop lhs mem rhs (i + 1)"
        using True ok by (subst Pattern_eq_loop.simps) auto
      also have "\<dots> = (\<forall>k. i + 1 \<le> k \<and> k < unat (Size lhs) \<longrightarrow>
        IsWildcard (Bytes lhs ! k) \<or> Value (Bytes lhs ! k) = mem (rhs + of_nat k))"
        using "1.IH" True ok by blast
      also have "\<dots> = (\<forall>k. i \<le> k \<and> k < unat (Size lhs) \<longrightarrow>
        IsWildcard (Bytes lhs ! k) \<or> Value (Bytes lhs ! k) = mem (rhs + of_nat k))"
        (is "?L = ?R")
      proof
        assume L: ?L
        show ?R
        proof (intro allI impI)
          fix k assume k: "i \<le> k \<and> k < unat (Size lhs)"
          show "IsWildcard (Bytes lhs ! k) \<or> Value (Bytes lhs ! k) = mem (rhs + of_nat k)"
          proof (cases "k = i")
            case True
            with ok show ?thesis by simp
          next
            case False
            with k have "i + 1 \<le> k \<and> k < unat (Size lhs)" by arith
            with L show ?thesis by blast
          qed
        qed
      next
        assume R: ?R
        show ?L
        proof (intro allI impI)
          fix k assume "i + 1 \<le> k \<and> k < unat (Size lhs)"
          then have "i \<le> k \<and> k < unat (Size lhs)" by arith
          with R show "IsWildcard (Bytes lhs ! k) \<or> Value (Bytes lhs ! k) = mem (rhs + of_nat k)"
            by blast
        qed
      qed
      finally show ?thesis .
    qed
  qed
qed

lemma Pattern_eq_iff:
  "Pattern_eq lhs mem rhs =
     (\<forall>k < unat (Size lhs).
        IsWildcard (Bytes lhs ! k) \<or> Value (Bytes lhs ! k) = mem (rhs + of_nat k))"
  by (simp add: Pattern_eq_def Pattern_eq_loop_iff)

lemma Pattern_ctor_example: "Pattern_ctor ''1A 2B ?? 4D'' = Inr example_Pattern"
  by code_simp

lemma Pattern_wf_example: "Pattern_wf example_Pattern"
  by (simp add: Pattern_wf_def example_Pattern_def example_tokens_def MAX_PATTERN_LENGTH_def)

lemma memcpy_to_at:
  "length bs < 2 ^ 64 \<Longrightarrow> k < length bs \<Longrightarrow> memcpy_to mem dst bs (dst + of_nat k) = bs ! k"
  by (simp add: memcpy_to_def unat_of_nat)

lemma all_less_4: "(\<forall>k<4::nat. P k) = (P 0 \<and> P 1 \<and> P 2 \<and> P 3)"
proof -
  have "k < 4 \<longleftrightarrow> k = 0 \<or> k = 1 \<or> k = 2 \<or> k = 3" for k :: nat by arith
  then show ?thesis by auto
qed

lemma example_match:
  "Pattern_eq example_Pattern (memcpy_to mem rhs [a, b, c, d]) rhs
     = (a = 0x1A \<and> b = 0x2B \<and> d = 0x4D)"
proof -
  have at: "memcpy_to mem rhs [a, b, c, d] (rhs + of_nat k) = [a, b, c, d] ! k" if "k < 4" for k
    using that by (intro memcpy_to_at) auto
  show ?thesis
    unfolding Pattern_eq_iff
    by (simp add: example_Pattern_def example_tokens_def all_less_4 at [simplified] nth_append)
qed

text \<open>
  C4. For a well-formed pattern and the window that starts at \<open>rhs\<close>, the matcher
  returns false exactly when some position below \<open>Size\<close> holds a concrete token whose
  value differs from the byte of the window at that position; a wildcard never causes a
  mismatch. The pattern \<^verbatim>\<open>"1A 2B ?? 4D"\<close> matches the windows 1A 2B 00 4D and
  1A 2B FF 4D and does not match 1A 2B 00 4E, wherever the window lies.
\<close>

theorem matcher_false_iff_concrete_mismatch:
  "(Pattern_wf lhs \<longrightarrow>
      (\<not> Pattern_eq lhs mem rhs) =
      (\<exists>i < unat (Size lhs).
          \<not> IsWildcard (Bytes lhs ! i) \<and> Value (Bytes lhs ! i) \<noteq> mem (rhs + of_nat i)))
   \<and> (\<exists>p. Pattern_ctor ''1A 2B ?? 4D'' = Inr p
        \<and> Pattern_eq p (memcpy_to mem rhs [0x1A, 0x2B, 0x00, 0x4D]) rhs
        \<and> Pattern_eq p (memcpy_to mem rhs [0x1A, 0x2B, 0xFF, 0x4D]) rhs
        \<and> \<not> Pattern_eq p (memcpy_to mem rhs [0x1A, 0x2B, 0x00, 0x4E]) rhs)"
proof
  show "Pattern_wf lhs \<longrightarrow>
      (\<not> Pattern_eq lhs mem rhs) =
      (\<exists>i < unat (Size lhs).
          \<not> IsWildcard (Bytes lhs ! i) \<and> Value (Bytes lhs ! i) \<noteq> mem (rhs + of_nat i))"
    unfolding Pattern_eq_iff by blast
next
  show "\<exists>p. Pattern_ctor ''1A 2B ?? 4D'' = Inr p
        \<and> Pattern_eq p (memcpy_to mem rhs [0x1A, 0x2B, 0x00, 0x4D]) rhs
        \<and> Pattern_eq p (memcpy_to mem rhs [0x1A, 0x2B, 0xFF, 0x4D]) rhs
        \<and> \<not> Pattern_eq p (memcpy_to mem rhs [0x1A, 0x2B, 0x00, 0x4E]) rhs"
    by (rule exI [of _ example_Pattern]) (simp add: Pattern_ctor_example example_match)
qed

theorem matcher_false_iff_concrete_mismatch_witness:
  "Pattern_wf example_Pattern
   \<and> \<not> Pattern_eq example_Pattern (memcpy_to (\<lambda>_. 0) 0x1000 [0x1A, 0x2B, 0x00, 0x4E]) 0x1000
   \<and> \<not> IsWildcard (Bytes example_Pattern ! 3)
   \<and> Value (Bytes example_Pattern ! 3) \<noteq> memcpy_to (\<lambda>_. 0) 0x1000 [0x1A, 0x2B, 0x00, 0x4E] (0x1000 + of_nat 3)"
proof -
  let ?M = "memcpy_to (\<lambda>_. 0) 0x1000 [0x1A, 0x2B, 0x00, 0x4E]"
  have i3: "\<not> IsWildcard (Bytes example_Pattern ! 3)
     \<and> Value (Bytes example_Pattern ! 3) \<noteq> ?M (0x1000 + of_nat 3)"
    by (simp add: example_Pattern_def example_tokens_def memcpy_to_def)
  then have "\<exists>i < unat (Size example_Pattern).
     \<not> IsWildcard (Bytes example_Pattern ! i)
     \<and> Value (Bytes example_Pattern ! i) \<noteq> ?M (0x1000 + of_nat i)"
    by (intro exI [of _ 3]) (simp add: example_Pattern_def)
  with matcher_false_iff_concrete_mismatch [of example_Pattern ?M "0x1000"] Pattern_wf_example i3
  show ?thesis by blast
qed

subsection \<open>Patch\<close>

lemma strlen_le: "strlen bs \<le> length bs"
  by (simp add: strlen_def length_takeWhile_le)

lemma strlen_nonzero: "k < strlen bs \<Longrightarrow> bs ! k \<noteq> 0"
proof -
  assume k: "k < strlen bs"
  then have "takeWhile (\<lambda>b. b \<noteq> 0) bs ! k \<in> set (takeWhile (\<lambda>b. b \<noteq> 0) bs)"
    by (simp add: strlen_def)
  then have "takeWhile (\<lambda>b. b \<noteq> 0) bs ! k \<noteq> 0"
    by (rule set_takeWhileD [THEN conjunct2])
  moreover have "takeWhile (\<lambda>b. b \<noteq> 0) bs ! k = bs ! k"
    using k by (simp add: strlen_def takeWhile_nth)
  ultimately show ?thesis by simp
qed

lemma strlen_stops: "strlen bs < length bs \<Longrightarrow> bs ! strlen bs = 0"
  unfolding strlen_def using nth_length_takeWhile [of "\<lambda>b. b \<noteq> 0" bs] by simp

lemma strlen_append_zero: "0 \<notin> set pre \<Longrightarrow> strlen (pre @ 0 # post) = length pre"
  by (induction pre) (auto simp: strlen_def)

lemma strlen_no_zero: "0 \<notin> set pre \<Longrightarrow> strlen pre = length pre"
  by (induction pre) (auto simp: strlen_def)

lemma strlen_all_zero: "set bs \<subseteq> {0} \<Longrightarrow> strlen bs = 0"
  by (cases bs) (auto simp: strlen_def)

lemma memcpy_to_strlen_nonzero:
  "memcpy_to mem dst (take (strlen bs) bs) a = mem a
     \<or> memcpy_to mem dst (take (strlen bs) bs) a \<noteq> 0"
  using strlen_nonzero [of "unat (a - dst)" bs] strlen_le [of bs]
  by (auto simp: memcpy_to_def)

lemma Patch_ctor_Inr:
  assumes "Patch_ctor vp mem aTarget aBytes = Inr (p, mem')"
  shows "\<exists>bs. aBytes = Some bs \<and> Target p = aTarget \<and> PatchSize p = strlen bs
     \<and> strlen bs \<noteq> 0 \<and> aTarget \<noteq> 0
     \<and> (case vp aTarget (strlen bs) PAGE_EXECUTE_READWRITE of
           Some old \<Rightarrow> OriginalBytes p = Some (memcpy_from mem aTarget (strlen bs))
                      \<and> mem' = memcpy_to mem aTarget (take (strlen bs) bs)
         | None \<Rightarrow> OriginalBytes p = None \<and> mem' = mem)"
  using assms by (auto simp: Patch_ctor_def Let_def split: if_splits option.splits)


lemma Patch_ctor_example:
  "Patch_ctor VirtualProtect_succeeds memory_of_55 0x1000 (Some (0x90 # 0 # rest))
     = Inr (\<lparr>Target = 0x1000, OriginalBytes = Some [0x55], PatchSize = 1\<rparr>,
            memcpy_to memory_of_55 0x1000 [0x90])"
  by (simp add: Patch_ctor_def strlen_def VirtualProtect_succeeds_def memcpy_from_def
        memory_of_55_def)


text \<open>
  C9. For a non-null target and non-null bytes, the byte count of a constructed Patch
  is the number of bytes of the data before its first zero byte: every byte below the
  count is not zero, and the byte at the count, when the data has one, is zero. Each
  byte of the memory after the constructor is the byte before it or a byte that is not
  zero, so no zero byte is written. Data with a zero byte is patched as the data before
  that byte alone, and data that is empty or all zero is rejected with
  "Patch Bytes are size 0.".
\<close>

theorem Patch_size_is_strlen:
  "aTarget \<noteq> 0 \<longrightarrow>
     (\<forall>p mem'. Patch_ctor vp mem aTarget (Some bs) = Inr (p, mem') \<longrightarrow>
         PatchSize p \<le> length bs
       \<and> (\<forall>k < PatchSize p. bs ! k \<noteq> 0)
       \<and> (PatchSize p < length bs \<longrightarrow> bs ! PatchSize p = 0)
       \<and> (\<forall>a. mem' a = mem a \<or> mem' a \<noteq> 0))
   \<and> (0 \<notin> set pre \<longrightarrow>
         Patch_ctor vp mem aTarget (Some (pre @ 0 # post)) = Patch_ctor vp mem aTarget (Some pre))
   \<and> (set bs \<subseteq> {0} \<longrightarrow> Patch_ctor vp mem aTarget (Some bs) = Inl Patch_Bytes_are_size_0)"
proof (intro impI conjI allI)
  fix p mem'
  assume r: "Patch_ctor vp mem aTarget (Some bs) = Inr (p, mem')"
  from Patch_ctor_Inr [OF r]
  have f: "PatchSize p = strlen bs"
    "case vp aTarget (strlen bs) PAGE_EXECUTE_READWRITE of
       Some old \<Rightarrow> OriginalBytes p = Some (memcpy_from mem aTarget (strlen bs))
                  \<and> mem' = memcpy_to mem aTarget (take (strlen bs) bs)
     | None \<Rightarrow> OriginalBytes p = None \<and> mem' = mem"
    by auto
  show "PatchSize p \<le> length bs" using f strlen_le by simp
  show "\<And>k. k < PatchSize p \<Longrightarrow> bs ! k \<noteq> 0" using f strlen_nonzero by simp
  show "PatchSize p < length bs \<Longrightarrow> bs ! PatchSize p = 0" using f strlen_stops by simp
  show "\<And>a. mem' a = mem a \<or> mem' a \<noteq> 0"
    using f memcpy_to_strlen_nonzero [of mem aTarget bs] by (auto split: option.splits)
next
  assume "0 \<notin> set pre"
  then show "Patch_ctor vp mem aTarget (Some (pre @ 0 # post))
      = Patch_ctor vp mem aTarget (Some pre)"
    by (auto simp: Patch_ctor_def Let_def strlen_append_zero strlen_no_zero split: option.splits)
next
  assume "aTarget \<noteq> 0" "set bs \<subseteq> {0}"
  then show "Patch_ctor vp mem aTarget (Some bs) = Inl Patch_Bytes_are_size_0"
    by (simp add: Patch_ctor_def strlen_all_zero)
qed

theorem Patch_size_is_strlen_witness:
  "(0x1000 :: addr) \<noteq> 0
   \<and> Patch_ctor VirtualProtect_succeeds memory_of_55 0x1000 (Some [0x90, 0x00, 0xC3])
       = Inr (\<lparr>Target = 0x1000, OriginalBytes = Some [0x55], PatchSize = 1\<rparr>,
              memcpy_to memory_of_55 0x1000 [0x90])
   \<and> (1 :: nat) \<le> length [0x90, 0x00, 0xC3 :: 8 word]
   \<and> [0x90, 0x00, 0xC3 :: 8 word] ! 0 \<noteq> 0
   \<and> [0x90, 0x00, 0xC3 :: 8 word] ! 1 = 0
   \<and> memcpy_to memory_of_55 0x1000 [0x90] 0x1000 \<noteq> 0
   \<and> memcpy_to memory_of_55 0x1000 [0x90] 0x1001 = memory_of_55 0x1001
   \<and> (0 :: 8 word) \<notin> set [0x90]
   \<and> Patch_ctor VirtualProtect_succeeds memory_of_55 0x1000 (Some ([0x90] @ 0x00 # [0xC3]))
       = Patch_ctor VirtualProtect_succeeds memory_of_55 0x1000 (Some [0x90])
   \<and> set [0, 0 :: 8 word] \<subseteq> {0}
   \<and> Patch_ctor VirtualProtect_succeeds memory_of_55 0x1000 (Some [0, 0])
       = Inl Patch_Bytes_are_size_0"
proof -
  have t: "(0x1000 :: addr) \<noteq> 0" by simp
  have z: "(0 :: 8 word) \<notin> set [0x90]" by simp
  have s: "set [0, 0 :: 8 word] \<subseteq> {0}" by simp
  note a = Patch_size_is_strlen
    [of "0x1000" VirtualProtect_succeeds memory_of_55 "[0x90, 0x00, 0xC3]" "[0x90]" "[0xC3]"]
  note b = Patch_size_is_strlen
    [of "0x1000" VirtualProtect_succeeds memory_of_55 "[0, 0]" "[0x90]" "[0xC3]"]
  have "Patch_ctor VirtualProtect_succeeds memory_of_55 0x1000 (Some ([0x90] @ 0x00 # [0xC3]))
       = Patch_ctor VirtualProtect_succeeds memory_of_55 0x1000 (Some [0x90])"
    using a t z by blast
  moreover have "Patch_ctor VirtualProtect_succeeds memory_of_55 0x1000 (Some [0, 0])
       = Inl Patch_Bytes_are_size_0"
    using b t s by blast
  moreover have "memcpy_to memory_of_55 0x1000 [0x90] 0x1000 \<noteq> 0
     \<and> memcpy_to memory_of_55 0x1000 [0x90] 0x1001 = memory_of_55 0x1001"
    by (simp add: memcpy_to_def)
  ultimately show ?thesis
    using Patch_ctor_example [of "[0xC3]"] by simp
qed





subsection \<open>The interpreter\<close>

lemma PatternScan_exec_PushAddr:
  "PatternScan_exec asm mem base i PushAddr st
     = Inr (st\<lparr>addrStore := addrStore st @ [resultAddr st]\<rparr>)"
  by (simp add: PatternScan_exec_def PushAddr_def Instruction_op_def)

lemma PatternScan_exec_PopAddr:
  "PatternScan_exec asm mem base i PopAddr st
     = (if addrStore st = [] then Inl UB_addrStore_empty
        else Inr (st\<lparr>resultAddr := last (addrStore st), addrStore := butlast (addrStore st)\<rparr>))"
  by (simp add: PatternScan_exec_def PopAddr_def Instruction_op_def)

lemma DataScan_exec_PushAddr:
  "DataScan_exec mem PushAddr st = Inr (st\<lparr>addrStore := addrStore st @ [resultAddr st]\<rparr>)"
  by (simp add: DataScan_exec_def PushAddr_def Instruction_op_def)

lemma DataScan_exec_PopAddr:
  "DataScan_exec mem PopAddr st
     = (if addrStore st = [] then Inl UB_addrStore_empty
        else Inr (st\<lparr>resultAddr := last (addrStore st), addrStore := butlast (addrStore st)\<rparr>))"
  by (simp add: DataScan_exec_def PopAddr_def Instruction_op_def)

lemma replicate_push_pop_Suc:
  "replicate (Suc n) a @ replicate (Suc n) b @ rest
     = a # (replicate n a @ replicate n b @ (b # rest))"
  by (simp add: replicate_append_same)

lemma PatternScan_run_push_pop:
  "instructionsFailed st = 0 \<Longrightarrow>
   PatternScan_run asm mem base i (replicate n PushAddr @ replicate n PopAddr @ rest) st
     = PatternScan_run asm mem base i rest st"
proof (induction n arbitrary: st rest)
  case 0
  then show ?case by simp
next
  case (Suc n)
  let ?st1 = "st\<lparr>addrStore := addrStore st @ [resultAddr st]\<rparr>"
  have f1: "instructionsFailed ?st1 = 0" using Suc.prems by simp
  have "PatternScan_run asm mem base i
          (replicate (Suc n) PushAddr @ replicate (Suc n) PopAddr @ rest) st
      = PatternScan_run asm mem base i
          (replicate n PushAddr @ replicate n PopAddr @ (PopAddr # rest)) ?st1"
    unfolding replicate_push_pop_Suc using Suc.prems
    by (simp add: PatternScan_exec_PushAddr)
  also have "\<dots> = PatternScan_run asm mem base i (PopAddr # rest) ?st1"
    by (rule Suc.IH [OF f1])
  also have "\<dots> = PatternScan_run asm mem base i rest st"
    using Suc.prems by (simp add: PatternScan_exec_PopAddr)
  finally show ?case .
qed

lemma DataScan_run_push_pop:
  "instructionsFailed st = 0 \<Longrightarrow>
   DataScan_run mem (replicate n PushAddr @ replicate n PopAddr @ rest) st
     = DataScan_run mem rest st"
proof (induction n arbitrary: st rest)
  case 0
  then show ?case by simp
next
  case (Suc n)
  let ?st1 = "st\<lparr>addrStore := addrStore st @ [resultAddr st]\<rparr>"
  have f1: "instructionsFailed ?st1 = 0" using Suc.prems by simp
  have "DataScan_run mem (replicate (Suc n) PushAddr @ replicate (Suc n) PopAddr @ rest) st
      = DataScan_run mem (replicate n PushAddr @ replicate n PopAddr @ (PopAddr # rest)) ?st1"
    unfolding replicate_push_pop_Suc using Suc.prems
    by (simp add: DataScan_exec_PushAddr)
  also have "\<dots> = DataScan_run mem (PopAddr # rest) ?st1"
    by (rule Suc.IH [OF f1])
  also have "\<dots> = DataScan_run mem rest st"
    using Suc.prems by (simp add: DataScan_exec_PopAddr)
  finally show ?case .
qed

lemma PatternScan_exec_default:
  "PatternScan_exec asm mem base i Instruction_default st = Inr st"
  by (simp add: PatternScan_exec_def Instruction_default_def)

lemma PatternScan_run_default:
  "instructionsFailed st = 0 \<Longrightarrow>
   PatternScan_run asm mem base i (replicate n Instruction_default @ rest) st
     = PatternScan_run asm mem base i rest st"
  by (induction n) (simp_all add: PatternScan_exec_default)

subsection \<open>The candidate offsets of a region\<close>

lemma PatternScan_candidates_none:
  "(\<forall>k. i \<le> k \<and> k < unat endv \<longrightarrow> \<not> Pattern_eq (Assembly this) mem (base + of_nat k)) \<Longrightarrow>
   PatternScan_candidates this mem base endv i r = Inr r"
proof (induction "unat endv - i" arbitrary: i)
  case 0
  then show ?case by (subst PatternScan_candidates.simps) simp
next
  case (Suc d)
  from Suc.hyps(2) have lt: "i < unat endv" by arith
  with Suc.prems have no: "\<not> Pattern_eq (Assembly this) mem (base + of_nat i)" by simp
  have d: "d = unat endv - (i + 1)" using Suc.hyps(2) by arith
  have rest: "\<forall>k. i + 1 \<le> k \<and> k < unat endv
      \<longrightarrow> \<not> Pattern_eq (Assembly this) mem (base + of_nat k)"
    using Suc.prems by simp
  have "PatternScan_candidates this mem base endv i r
      = PatternScan_candidates this mem base endv (i + 1) r"
    using lt no by (subst PatternScan_candidates.simps) simp
  also have "\<dots> = Inr r" by (rule Suc.hyps(1) [OF d rest])
  finally show ?case .
qed

lemma PatternScan_candidates_first:
  "i \<le> k \<Longrightarrow> k < unat endv \<Longrightarrow>
   (\<forall>j. i \<le> j \<and> j < k \<longrightarrow> \<not> Pattern_eq (Assembly this) mem (base + of_nat j)) \<Longrightarrow>
   Pattern_eq (Assembly this) mem (base + of_nat k) \<Longrightarrow>
   PatternScan_candidates this mem base endv i r =
     (case PatternScan_run (Assembly this) mem base k (Instructions this)
             (attempt_init (base + of_nat k)) of
        Inl e \<Rightarrow> Inl e
      | Inr st \<Rightarrow>
          if instructionsFailed st = 0 then Inr (resultAddr st)
          else PatternScan_candidates this mem base endv (k + 1) (resultAddr st))"
proof (induction "k - i" arbitrary: i)
  case 0
  then have ik: "i = k" by simp
  from "0.prems"(2,4) show ?case
    unfolding ik by (subst PatternScan_candidates.simps) simp
next
  case (Suc d)
  from Suc.hyps(2) have lt: "i < k" by arith
  with Suc.prems have no: "\<not> Pattern_eq (Assembly this) mem (base + of_nat i)" by simp
  have d: "d = k - (i + 1)" using Suc.hyps(2) by arith
  have le: "i + 1 \<le> k" using lt by arith
  have rest: "\<forall>j. i + 1 \<le> j \<and> j < k \<longrightarrow> \<not> Pattern_eq (Assembly this) mem (base + of_nat j)"
    using Suc.prems by simp
  have "PatternScan_candidates this mem base endv i r
      = PatternScan_candidates this mem base endv (i + 1) r"
    using lt Suc.prems(2) no by (subst PatternScan_candidates.simps) simp
  also note Suc.hyps(1) [OF d le Suc.prems(2) rest Suc.prems(4)]
  finally show ?case .
qed

lemma DataScan_candidates_none:
  "(\<forall>k. i \<le> k \<and> k < unat endv \<longrightarrow> \<not> Pattern_eq (DS_Assembly this) mem (base + of_nat k)) \<Longrightarrow>
   DataScan_candidates this mem base endv i r = Inr r"
proof (induction "unat endv - i" arbitrary: i)
  case 0
  then show ?case by (subst DataScan_candidates.simps) simp
next
  case (Suc d)
  from Suc.hyps(2) have lt: "i < unat endv" by arith
  with Suc.prems have no: "\<not> Pattern_eq (DS_Assembly this) mem (base + of_nat i)" by simp
  have d: "d = unat endv - (i + 1)" using Suc.hyps(2) by arith
  have rest: "\<forall>k. i + 1 \<le> k \<and> k < unat endv
      \<longrightarrow> \<not> Pattern_eq (DS_Assembly this) mem (base + of_nat k)"
    using Suc.prems by simp
  have "DataScan_candidates this mem base endv i r
      = DataScan_candidates this mem base endv (i + 1) r"
    using lt no by (subst DataScan_candidates.simps) simp
  also have "\<dots> = Inr r" by (rule Suc.hyps(1) [OF d rest])
  finally show ?case .
qed

lemma DataScan_candidates_first:
  "i \<le> k \<Longrightarrow> k < unat endv \<Longrightarrow>
   (\<forall>j. i \<le> j \<and> j < k \<longrightarrow> \<not> Pattern_eq (DS_Assembly this) mem (base + of_nat j)) \<Longrightarrow>
   Pattern_eq (DS_Assembly this) mem (base + of_nat k) \<Longrightarrow>
   DataScan_candidates this mem base endv i r =
     (case DataScan_run mem (DS_Instructions this) (attempt_init (base + of_nat k)) of
        Inl e \<Rightarrow> Inl e
      | Inr st \<Rightarrow>
          if instructionsFailed st = 0 then Inr (resultAddr st)
          else DataScan_candidates this mem base endv (k + 1) (resultAddr st))"
proof (induction "k - i" arbitrary: i)
  case 0
  then have ik: "i = k" by simp
  from "0.prems"(2,4) show ?case
    unfolding ik by (subst DataScan_candidates.simps) simp
next
  case (Suc d)
  from Suc.hyps(2) have lt: "i < k" by arith
  with Suc.prems have no: "\<not> Pattern_eq (DS_Assembly this) mem (base + of_nat i)" by simp
  have d: "d = k - (i + 1)" using Suc.hyps(2) by arith
  have le: "i + 1 \<le> k" using lt by arith
  have rest: "\<forall>j. i + 1 \<le> j \<and> j < k \<longrightarrow> \<not> Pattern_eq (DS_Assembly this) mem (base + of_nat j)"
    using Suc.prems by simp
  have "DataScan_candidates this mem base endv i r
      = DataScan_candidates this mem base endv (i + 1) r"
    using lt Suc.prems(2) no by (subst DataScan_candidates.simps) simp
  also note Suc.hyps(1) [OF d le Suc.prems(2) rest Suc.prems(4)]
  finally show ?case .
qed

subsection \<open>The demonstration memory\<close>

lemma demo_match_iff: "Pattern_eq example_Pattern demo_memory a = (a = 0x10FFC)"
proof
  assume "Pattern_eq example_Pattern demo_memory a"
  then have "demo_memory a = 0x1A"
    by (simp add: Pattern_eq_iff example_Pattern_def example_tokens_def all_less_4)
  then show "a = 0x10FFC"
    by (simp add: demo_memory_def split: if_splits)
next
  assume "a = 0x10FFC"
  then show "Pattern_eq example_Pattern demo_memory a"
    by (simp add: Pattern_eq_iff example_Pattern_def example_tokens_def all_less_4 demo_memory_def)
qed

lemma demo_offset: "k < 0xFFC \<Longrightarrow> (0x10000 + of_nat k :: 64 word) \<noteq> 0x10FFC"
proof
  assume k: "k < 0xFFC" and e: "(0x10000 + of_nat k :: 64 word) = 0x10FFC"
  from e have "(of_nat k :: 64 word) = 0xFFC" by simp
  then have "unat (of_nat k :: 64 word) = 0xFFC" by simp
  with k show False by (simp add: unat_of_nat)
qed

lemma demo_no_early_match:
  "k < 0xFFC \<Longrightarrow> \<not> Pattern_eq example_Pattern demo_memory (0x10000 + of_nat k)"
  by (simp add: demo_match_iff demo_offset)

lemma demo_last_window: "Pattern_eq example_Pattern demo_memory (0x10000 + of_nat 0xFFC)"
  by (simp add: demo_match_iff)

subsection \<open>The walk over the regions\<close>

lemma PatternScan_while_rejected:
  "vq addr = Some mbi \<Longrightarrow> \<not> PatternScan_accepts (Assembly this) mbi \<Longrightarrow>
   PatternScan_while (Suc fuel) vq mem this addr 0
     = PatternScan_while fuel vq mem this (addr + RegionSize mbi) 0"
  by simp

lemma PatternScan_while_accepted:
  "vq addr = Some mbi \<Longrightarrow> PatternScan_accepts (Assembly this) mbi \<Longrightarrow>
   PatternScan_while (Suc fuel) vq mem this addr 0
     = (case PatternScan_candidates this mem (BaseAddress mbi)
               (RegionSize mbi - Size (Assembly this)) 0 0 of
          Inl e \<Rightarrow> Some (Inl e)
        | Inr r \<Rightarrow> PatternScan_while fuel vq mem this (addr + RegionSize mbi) r)"
  by simp

lemma PatternScan_while_found:
  "r \<noteq> 0 \<Longrightarrow> PatternScan_while (Suc fuel) vq mem this addr r = Some (Inr r)"
  by simp

lemma PatternScan_while_end:
  "vq addr = None \<Longrightarrow> PatternScan_while (Suc fuel) vq mem this addr 0 = Some (Inr 0)"
  by simp

lemma DataScan_while_rejected:
  "vq addr = Some mbi \<Longrightarrow>
   addr \<ge> lpBaseOfDll modInfo \<and> addr \<le> lpBaseOfDll modInfo + ucast (SizeOfImage modInfo) \<Longrightarrow>
   \<not> DataScan_accepts (DS_Assembly this) mbi \<Longrightarrow>
   DataScan_while (Suc fuel) vq modInfo mem this addr 0
     = DataScan_while fuel vq modInfo mem this (addr + RegionSize mbi) 0"
  by simp

lemma DataScan_while_accepted:
  "vq addr = Some mbi \<Longrightarrow>
   addr \<ge> lpBaseOfDll modInfo \<and> addr \<le> lpBaseOfDll modInfo + ucast (SizeOfImage modInfo) \<Longrightarrow>
   DataScan_accepts (DS_Assembly this) mbi \<Longrightarrow>
   DataScan_while (Suc fuel) vq modInfo mem this addr 0
     = (case DataScan_candidates this mem (BaseAddress mbi)
               (RegionSize mbi - Size (DS_Assembly this)) 0 0 of
          Inl e \<Rightarrow> Some (Inl e)
        | Inr r \<Rightarrow> DataScan_while fuel vq modInfo mem this (addr + RegionSize mbi) r)"
  by simp

lemma DataScan_while_found:
  "r \<noteq> 0 \<Longrightarrow> DataScan_while (Suc fuel) vq modInfo mem this addr r = Some (Inr r)"
  by simp

lemma DataScan_while_end:
  "vq addr = None \<Longrightarrow> DataScan_while (Suc fuel) vq modInfo mem this addr 0 = Some (Inr 0)"
  by simp

text \<open>The walk of the demonstration host.\<close>

lemma demo_VirtualQuery_0: "demo_VirtualQuery sz prot 0 = Some demo_free"
  by (simp add: demo_VirtualQuery_def)

lemma demo_VirtualQuery_region:
  "sz = 0x1000 \<or> sz = 0x2000 \<Longrightarrow>
   demo_VirtualQuery sz prot 0x10000 = Some (demo_region sz prot)"
  by (auto simp: demo_VirtualQuery_def)

lemma demo_VirtualQuery_end:
  "sz = 0x1000 \<or> sz = 0x2000 \<Longrightarrow> demo_VirtualQuery sz prot (0x10000 + sz) = None"
  by (auto simp: demo_VirtualQuery_def)

lemma demo_free_rejected:
  "\<not> PatternScan_accepts asm demo_free"
  by (simp add: PatternScan_accepts_def demo_free_def MEM_FREE_def MEM_COMMIT_def)

lemma demo_PatternScan_Scan:
  assumes sz: "sz = 0x1000 \<or> sz = 0x2000"
  shows "PatternScan_Scan (Suc (Suc (Suc fuel))) (demo_VirtualQuery sz prot) mem (demo_PatternScan instrs)
     = (if PatternScan_accepts example_Pattern (demo_region sz prot)
        then (case PatternScan_candidates (demo_PatternScan instrs) mem 0x10000 (sz - 4) 0 0 of
                Inl e \<Rightarrow> Some (Inl e)
              | Inr r \<Rightarrow> Some (Inr r))
        else Some (Inr 0))"
proof -
  let ?vq = "demo_VirtualQuery sz prot"
  let ?sc = "demo_PatternScan instrs"
  have asm: "Assembly ?sc = example_Pattern" by (simp add: demo_PatternScan_def)
  have s4: "Size example_Pattern = 4" by (simp add: example_Pattern_def)
  have base: "BaseAddress (demo_region sz prot) = 0x10000" "RegionSize (demo_region sz prot) = sz"
    by (simp_all add: demo_region_def)
  have last: "PatternScan_while (Suc fuel) ?vq mem ?sc (0x10000 + sz) r = Some (Inr r)" for r
    by (cases "r = 0") (simp_all add: demo_VirtualQuery_end [OF sz])
  have "PatternScan_Scan (Suc (Suc (Suc fuel))) ?vq mem ?sc
      = PatternScan_while (Suc (Suc (Suc fuel))) ?vq mem ?sc 0 0"
    by (simp add: PatternScan_Scan_def asm s4)
  also have "\<dots> = PatternScan_while (Suc (Suc fuel)) ?vq mem ?sc (0 + RegionSize demo_free) 0"
    by (rule PatternScan_while_rejected [where mbi = demo_free])
       (rule demo_VirtualQuery_0, rule demo_free_rejected)
  also have "\<dots> = PatternScan_while (Suc (Suc fuel)) ?vq mem ?sc 0x10000 0"
    by (simp add: demo_free_def del: PatternScan_while.simps)
  also have "\<dots> = (if PatternScan_accepts example_Pattern (demo_region sz prot)
        then (case PatternScan_candidates ?sc mem 0x10000 (sz - 4) 0 0 of
                Inl e \<Rightarrow> Some (Inl e)
              | Inr r \<Rightarrow> Some (Inr r))
        else Some (Inr 0))"
  proof (cases "PatternScan_accepts example_Pattern (demo_region sz prot)")
    case True
    then have acc: "PatternScan_accepts (Assembly ?sc) (demo_region sz prot)" by (simp add: asm)
    have "PatternScan_while (Suc (Suc fuel)) ?vq mem ?sc 0x10000 0
       = (case PatternScan_candidates ?sc mem (BaseAddress (demo_region sz prot))
               (RegionSize (demo_region sz prot) - Size (Assembly ?sc)) 0 0 of
          Inl e \<Rightarrow> Some (Inl e)
        | Inr r \<Rightarrow> PatternScan_while (Suc fuel) ?vq mem ?sc
                    (0x10000 + RegionSize (demo_region sz prot)) r)"
      by (rule PatternScan_while_accepted) (rule demo_VirtualQuery_region [OF sz], rule acc)
    with True show ?thesis
      by (simp add: asm s4 base last split: sum.splits del: PatternScan_while.simps)
  next
    case False
    then have rej: "\<not> PatternScan_accepts (Assembly ?sc) (demo_region sz prot)"
      by (simp add: asm)
    have "PatternScan_while (Suc (Suc fuel)) ?vq mem ?sc 0x10000 0
       = PatternScan_while (Suc fuel) ?vq mem ?sc (0x10000 + RegionSize (demo_region sz prot)) 0"
      by (rule PatternScan_while_rejected) (rule demo_VirtualQuery_region [OF sz], rule rej)
    with False show ?thesis
      by (simp add: base last del: PatternScan_while.simps)
  qed
  finally show ?thesis .
qed


lemma demo_free_rejected_DataScan:
  "\<not> DataScan_accepts asm demo_free"
  by (simp add: DataScan_accepts_def demo_free_def MEM_FREE_def MEM_COMMIT_def)

lemma demo_DataScan_Scan:
  assumes sz: "sz = 0x1000 \<or> sz = 0x2000"
  shows "DataScan_Scan (Suc (Suc fuel)) (demo_VirtualQuery sz prot) demo_modInfo mem
           (demo_DataScan instrs)
     = (if DataScan_accepts example_Pattern (demo_region sz prot)
        then (case DataScan_candidates (demo_DataScan instrs) mem 0x10000 (sz - 4) 0 0 of
                Inl e \<Rightarrow> Some (Inl e)
              | Inr r \<Rightarrow> Some (Inr r))
        else Some (Inr 0))"
proof -
  let ?vq = "demo_VirtualQuery sz prot"
  let ?sc = "demo_DataScan instrs"
  have asm: "DS_Assembly ?sc = example_Pattern"
    by (simp add: demo_DataScan_def DataScan_ctor_def)
  have s4: "Size example_Pattern = 4" by (simp add: example_Pattern_def)
  have base: "BaseAddress (demo_region sz prot) = 0x10000" "RegionSize (demo_region sz prot) = sz"
    by (simp_all add: demo_region_def)
  have inm: "(0x10000 :: addr) \<ge> lpBaseOfDll demo_modInfo
      \<and> (0x10000 :: addr) \<le> lpBaseOfDll demo_modInfo + ucast (SizeOfImage demo_modInfo)"
    by (simp add: demo_modInfo_def)
  have last: "DataScan_while (Suc fuel) ?vq demo_modInfo mem ?sc (0x10000 + sz) r = Some (Inr r)"
    for r
    by (cases "r = 0") (simp_all add: demo_VirtualQuery_end [OF sz])
  have "DataScan_Scan (Suc (Suc fuel)) ?vq demo_modInfo mem ?sc
      = DataScan_while (Suc (Suc fuel)) ?vq demo_modInfo mem ?sc 0x10000 0"
    by (simp add: DataScan_Scan_def asm s4 demo_modInfo_def)
  also have "\<dots> = (if DataScan_accepts example_Pattern (demo_region sz prot)
        then (case DataScan_candidates ?sc mem 0x10000 (sz - 4) 0 0 of
                Inl e \<Rightarrow> Some (Inl e)
              | Inr r \<Rightarrow> Some (Inr r))
        else Some (Inr 0))"
  proof (cases "DataScan_accepts example_Pattern (demo_region sz prot)")
    case True
    then have acc: "DataScan_accepts (DS_Assembly ?sc) (demo_region sz prot)" by (simp add: asm)
    have "DataScan_while (Suc (Suc fuel)) ?vq demo_modInfo mem ?sc 0x10000 0
       = (case DataScan_candidates ?sc mem (BaseAddress (demo_region sz prot))
               (RegionSize (demo_region sz prot) - Size (DS_Assembly ?sc)) 0 0 of
          Inl e \<Rightarrow> Some (Inl e)
        | Inr r \<Rightarrow> DataScan_while (Suc fuel) ?vq demo_modInfo mem ?sc
                    (0x10000 + RegionSize (demo_region sz prot)) r)"
      by (rule DataScan_while_accepted)
         (rule demo_VirtualQuery_region [OF sz], rule inm, rule acc)
    with True show ?thesis
      by (simp add: asm s4 base last split: sum.splits del: DataScan_while.simps)
  next
    case False
    then have rej: "\<not> DataScan_accepts (DS_Assembly ?sc) (demo_region sz prot)"
      by (simp add: asm)
    have "DataScan_while (Suc (Suc fuel)) ?vq demo_modInfo mem ?sc 0x10000 0
       = DataScan_while (Suc fuel) ?vq demo_modInfo mem ?sc
           (0x10000 + RegionSize (demo_region sz prot)) 0"
      by (rule DataScan_while_rejected)
         (rule demo_VirtualQuery_region [OF sz], rule inm, rule rej)
    with False show ?thesis
      by (simp add: base last del: DataScan_while.simps)
  qed
  finally show ?thesis .
qed

subsection \<open>The scans of the demonstration host\<close>

lemma demo_PatternScan_fields:
  "Assembly (demo_PatternScan instrs) = example_Pattern"
  "Instructions (demo_PatternScan instrs)
     = instrs @ replicate (MAX_INSTRUCTION_LENGTH - length instrs) Instruction_default"
  by (simp_all add: demo_PatternScan_def)

lemma demo_DataScan_fields:
  "DS_Assembly (demo_DataScan instrs) = example_Pattern"
  "DS_Instructions (demo_DataScan instrs) = instrs"
  by (simp_all add: demo_DataScan_def DataScan_ctor_def)

lemma demo_PatternScan_candidates_2000:
  "PatternScan_candidates (demo_PatternScan instrs) demo_memory 0x10000 (0x2000 - 4) 0 0 =
     (case PatternScan_run example_Pattern demo_memory 0x10000 0xFFC
             (Instructions (demo_PatternScan instrs)) (attempt_init 0x10FFC) of
        Inl e \<Rightarrow> Inl e
      | Inr st \<Rightarrow>
          if instructionsFailed st = 0 then Inr (resultAddr st)
          else PatternScan_candidates (demo_PatternScan instrs) demo_memory 0x10000 (0x2000 - 4)
                 (0xFFC + 1) (resultAddr st))"
proof -
  have "PatternScan_candidates (demo_PatternScan instrs) demo_memory 0x10000 (0x2000 - 4) 0 0 =
     (case PatternScan_run (Assembly (demo_PatternScan instrs)) demo_memory 0x10000 0xFFC
             (Instructions (demo_PatternScan instrs)) (attempt_init (0x10000 + of_nat 0xFFC)) of
        Inl e \<Rightarrow> Inl e
      | Inr st \<Rightarrow>
          if instructionsFailed st = 0 then Inr (resultAddr st)
          else PatternScan_candidates (demo_PatternScan instrs) demo_memory 0x10000 (0x2000 - 4)
                 (0xFFC + 1) (resultAddr st))"
    by (rule PatternScan_candidates_first)
       (simp, simp, simp add: demo_PatternScan_fields demo_no_early_match,
        simp add: demo_PatternScan_fields demo_match_iff)
  then show ?thesis by (simp add: demo_PatternScan_fields)
qed

lemma demo_DataScan_candidates_2000:
  "DataScan_candidates (demo_DataScan instrs) demo_memory 0x10000 (0x2000 - 4) 0 0 =
     (case DataScan_run demo_memory (DS_Instructions (demo_DataScan instrs))
             (attempt_init 0x10FFC) of
        Inl e \<Rightarrow> Inl e
      | Inr st \<Rightarrow>
          if instructionsFailed st = 0 then Inr (resultAddr st)
          else DataScan_candidates (demo_DataScan instrs) demo_memory 0x10000 (0x2000 - 4)
                 (0xFFC + 1) (resultAddr st))"
proof -
  have "DataScan_candidates (demo_DataScan instrs) demo_memory 0x10000 (0x2000 - 4) 0 0 =
     (case DataScan_run demo_memory (DS_Instructions (demo_DataScan instrs))
             (attempt_init (0x10000 + of_nat 0xFFC)) of
        Inl e \<Rightarrow> Inl e
      | Inr st \<Rightarrow>
          if instructionsFailed st = 0 then Inr (resultAddr st)
          else DataScan_candidates (demo_DataScan instrs) demo_memory 0x10000 (0x2000 - 4)
                 (0xFFC + 1) (resultAddr st))"
    by (rule DataScan_candidates_first)
       (simp, simp, simp add: demo_DataScan_fields demo_no_early_match,
        simp add: demo_DataScan_fields demo_match_iff)
  then show ?thesis by simp
qed

lemma demo_PatternScan_candidates_1000:
  "PatternScan_candidates (demo_PatternScan instrs) demo_memory 0x10000 (0x1000 - 4) 0 0 = Inr 0"
  by (rule PatternScan_candidates_none)
     (simp add: demo_PatternScan_fields demo_no_early_match)

lemma demo_DataScan_candidates_1000:
  "DataScan_candidates (demo_DataScan instrs) demo_memory 0x10000 (0x1000 - 4) 0 0 = Inr 0"
  by (rule DataScan_candidates_none)
     (simp add: demo_DataScan_fields demo_no_early_match)

lemma demo_region_accepted:
  "sz = 0x1000 \<or> sz = 0x2000 \<Longrightarrow>
   PatternScan_accepts example_Pattern (demo_region sz PAGE_EXECUTE_READ)"
  "sz = 0x1000 \<or> sz = 0x2000 \<Longrightarrow>
   DataScan_accepts example_Pattern (demo_region sz PAGE_EXECUTE_READ)"
  "sz = 0x1000 \<or> sz = 0x2000 \<Longrightarrow>
   DataScan_accepts example_Pattern (demo_region sz PAGE_READONLY)"
  "\<not> PatternScan_accepts example_Pattern (demo_region sz PAGE_READONLY)"
  by (auto simp: PatternScan_accepts_def DataScan_accepts_def demo_region_def example_Pattern_def
        PAGE_EXECUTE_READ_def PAGE_EXECUTE_READWRITE_def PAGE_READONLY_def PAGE_READWRITE_def)

subsection \<open>The address stack\<close>

lemma replicate_pop_Suc: "replicate (Suc n) b @ rest = replicate n b @ (b # rest)"
  by (simp add: replicate_append_same)

text \<open>
  C2, as the code has it. In both interpreters, while no instruction has failed, \<open>n\<close>
  \<^verbatim>\<open>pushaddr\<close> followed by \<open>n\<close> \<^verbatim>\<open>popaddr\<close> leave the attempt as it was, the
  cursor and the address stack included, so the instructions after them run as if the
  \<open>2n\<close> were not there. A further \<^verbatim>\<open>popaddr\<close>, on the empty stack, is not a failed
  instruction: the code calls \<^verbatim>\<open>back()\<close> and \<^verbatim>\<open>pop_back()\<close> of the empty vector
  without a test, which is undefined behaviour (\<open>UB_addrStore_empty\<close>), and
  \<^verbatim>\<open>instructionsFailed\<close> is not touched.
\<close>

theorem PushAddr_PopAddr_LIFO:
  "instructionsFailed st = 0 \<longrightarrow>
      PatternScan_run asm mem base i (replicate n PushAddr @ replicate n PopAddr) st = Inr st
    \<and> DataScan_run mem (replicate n PushAddr @ replicate n PopAddr) st = Inr st
    \<and> PatternScan_run asm mem base i (replicate n PushAddr @ replicate n PopAddr @ rest) st
        = PatternScan_run asm mem base i rest st
    \<and> DataScan_run mem (replicate n PushAddr @ replicate n PopAddr @ rest) st
        = DataScan_run mem rest st
    \<and> (addrStore st = [] \<longrightarrow>
         PatternScan_run asm mem base i
            (replicate n PushAddr @ replicate (Suc n) PopAddr @ rest) st = Inl UB_addrStore_empty
       \<and> DataScan_run mem
            (replicate n PushAddr @ replicate (Suc n) PopAddr @ rest) st = Inl UB_addrStore_empty)"
proof (intro impI conjI)
  assume f: "instructionsFailed st = 0"
  show "PatternScan_run asm mem base i (replicate n PushAddr @ replicate n PopAddr) st = Inr st"
    using PatternScan_run_push_pop [OF f, of asm mem base i n "[]"] by simp
  show "DataScan_run mem (replicate n PushAddr @ replicate n PopAddr) st = Inr st"
    using DataScan_run_push_pop [OF f, of mem n "[]"] by simp
  show "PatternScan_run asm mem base i (replicate n PushAddr @ replicate n PopAddr @ rest) st
        = PatternScan_run asm mem base i rest st"
    by (rule PatternScan_run_push_pop [OF f])
  show "DataScan_run mem (replicate n PushAddr @ replicate n PopAddr @ rest) st
        = DataScan_run mem rest st"
    by (rule DataScan_run_push_pop [OF f])
  assume e: "addrStore st = []"
  show "PatternScan_run asm mem base i
            (replicate n PushAddr @ replicate (Suc n) PopAddr @ rest) st = Inl UB_addrStore_empty"
    unfolding replicate_pop_Suc PatternScan_run_push_pop [OF f]
    using e by (simp add: PatternScan_exec_PopAddr)
  show "DataScan_run mem
            (replicate n PushAddr @ replicate (Suc n) PopAddr @ rest) st = Inl UB_addrStore_empty"
    unfolding replicate_pop_Suc DataScan_run_push_pop [OF f]
    using e by (simp add: DataScan_exec_PopAddr)
qed

theorem PushAddr_PopAddr_LIFO_witness:
  "instructionsFailed (attempt_init 0x10FFC) = 0
   \<and> PatternScan_run example_Pattern demo_memory 0x10000 0xFFC
        [PushAddr, PushAddr, PopAddr, PopAddr] (attempt_init 0x10FFC) = Inr (attempt_init 0x10FFC)
   \<and> DataScan_run demo_memory
        [PushAddr, PushAddr, PopAddr, PopAddr] (attempt_init 0x10FFC) = Inr (attempt_init 0x10FFC)
   \<and> addrStore (attempt_init 0x10FFC) = []
   \<and> PatternScan_run example_Pattern demo_memory 0x10000 0xFFC
        [PushAddr, PushAddr, PopAddr, PopAddr, PopAddr] (attempt_init 0x10FFC)
       = Inl UB_addrStore_empty
   \<and> DataScan_run demo_memory
        [PushAddr, PushAddr, PopAddr, PopAddr, PopAddr] (attempt_init 0x10FFC)
       = Inl UB_addrStore_empty"
proof -
  have f: "instructionsFailed (attempt_init 0x10FFC) = 0" by (simp add: attempt_init_def)
  have e: "addrStore (attempt_init 0x10FFC) = []" by (simp add: attempt_init_def)
  have r2: "replicate 2 x = [x, x]" for x :: Instruction by (simp add: numeral_2_eq_2)
  have r3: "replicate (Suc 2) x = [x, x, x]" for x :: Instruction by (simp add: numeral_2_eq_2)
  note t = PushAddr_PopAddr_LIFO
    [of "attempt_init 0x10FFC" example_Pattern demo_memory "0x10000" "0xFFC" 2 "[]",
     unfolded r2 r3]
  show ?thesis using t f e by simp
qed

text \<open>
  The claim as the specification states it fails: a scan whose only instruction is
  \<^verbatim>\<open>PopAddr()\<close> finds the pattern at \<open>0x10FFC\<close> and then pops the empty stack.
  The scan does not go on to the next candidate and report "not found": its outcome
  is the undefined behaviour, in both revisions.
\<close>

theorem PopAddr_empty_counterexample:
  "PatternScan_run example_Pattern demo_memory 0x10000 0xFFC
       (Instructions (demo_PatternScan [PopAddr])) (attempt_init 0x10FFC) = Inl UB_addrStore_empty
   \<and> PatternScan_Scan 3 (demo_VirtualQuery 0x2000 PAGE_EXECUTE_READ) demo_memory
       (demo_PatternScan [PopAddr]) = Some (Inl UB_addrStore_empty)
   \<and> DataScan_run demo_memory (DS_Instructions (demo_DataScan [PopAddr])) (attempt_init 0x10FFC)
       = Inl UB_addrStore_empty
   \<and> DataScan_Scan 2 (demo_VirtualQuery 0x2000 PAGE_EXECUTE_READ) demo_modInfo demo_memory
       (demo_DataScan [PopAddr]) = Some (Inl UB_addrStore_empty)"
proof -
  have p: "PatternScan_run example_Pattern demo_memory 0x10000 0xFFC
       (Instructions (demo_PatternScan [PopAddr])) (attempt_init 0x10FFC) = Inl UB_addrStore_empty"
    by (simp add: demo_PatternScan_fields PatternScan_exec_PopAddr attempt_init_def)
  have d: "DataScan_run demo_memory (DS_Instructions (demo_DataScan [PopAddr]))
       (attempt_init 0x10FFC) = Inl UB_addrStore_empty"
    by (simp add: demo_DataScan_fields DataScan_exec_PopAddr attempt_init_def)
  have "PatternScan_Scan (Suc (Suc (Suc 0))) (demo_VirtualQuery 0x2000 PAGE_EXECUTE_READ)
       demo_memory (demo_PatternScan [PopAddr]) = Some (Inl UB_addrStore_empty)"
    by (subst demo_PatternScan_Scan)
       (simp_all add: demo_region_accepted demo_PatternScan_candidates_2000 [simplified] p)
  moreover have "DataScan_Scan (Suc (Suc 0)) (demo_VirtualQuery 0x2000 PAGE_EXECUTE_READ)
       demo_modInfo demo_memory (demo_DataScan [PopAddr]) = Some (Inl UB_addrStore_empty)"
    by (subst demo_DataScan_Scan)
       (simp_all add: demo_region_accepted demo_DataScan_candidates_2000 [simplified] d)
  ultimately show ?thesis
    using p d by (simp add: numeral_3_eq_3 numeral_2_eq_2)
qed

subsection \<open>The empty instruction sequence\<close>

lemma PatternScan_ctor_empty:
  "PatternScan_ctor aASM [] = Some this \<Longrightarrow>
   Assembly this = aASM
   \<and> Instructions this = replicate MAX_INSTRUCTION_LENGTH Instruction_default"
  by (auto simp: PatternScan_ctor_def)

lemma PatternScan_run_all_default:
  "instructionsFailed st = 0 \<Longrightarrow>
   PatternScan_run asm mem base i (replicate n Instruction_default) st = Inr st"
  using PatternScan_run_default [of st asm mem base i n "[]"] by simp

lemma PatternScan_while_skip:
  "\<forall>i<n. vq (addrs i) = Some (mbis i) \<and> addrs (Suc i) = addrs i + RegionSize (mbis i)
      \<and> (PatternScan_accepts (Assembly this) (mbis i) \<longrightarrow>
           (\<forall>j < unat (RegionSize (mbis i) - Size (Assembly this)).
              \<not> Pattern_eq (Assembly this) mem (BaseAddress (mbis i) + of_nat j))) \<Longrightarrow>
   PatternScan_while (n + fuel) vq mem this (addrs 0) 0
     = PatternScan_while fuel vq mem this (addrs n) 0"
proof (induction n arbitrary: addrs mbis)
  case 0
  show ?case by simp
next
  case (Suc n)
  from Suc.prems have q: "vq (addrs 0) = Some (mbis 0)"
    and nx: "addrs (Suc 0) = addrs 0 + RegionSize (mbis 0)"
    and nm: "PatternScan_accepts (Assembly this) (mbis 0) \<longrightarrow>
           (\<forall>j < unat (RegionSize (mbis 0) - Size (Assembly this)).
              \<not> Pattern_eq (Assembly this) mem (BaseAddress (mbis 0) + of_nat j))"
    by auto
  have step: "PatternScan_while (Suc (n + fuel)) vq mem this (addrs 0) 0
      = PatternScan_while (n + fuel) vq mem this (addrs (Suc 0)) 0"
  proof (cases "PatternScan_accepts (Assembly this) (mbis 0)")
    case False
    show ?thesis
      unfolding nx by (rule PatternScan_while_rejected) (rule q, rule False)
  next
    case True
    with nm have "\<forall>k. 0 \<le> k \<and> k < unat (RegionSize (mbis 0) - Size (Assembly this))
        \<longrightarrow> \<not> Pattern_eq (Assembly this) mem (BaseAddress (mbis 0) + of_nat k)"
      by simp
    then have c: "PatternScan_candidates this mem (BaseAddress (mbis 0))
        (RegionSize (mbis 0) - Size (Assembly this)) 0 0 = Inr 0"
      by (rule PatternScan_candidates_none)
    have "PatternScan_while (Suc (n + fuel)) vq mem this (addrs 0) 0
       = (case PatternScan_candidates this mem (BaseAddress (mbis 0))
               (RegionSize (mbis 0) - Size (Assembly this)) 0 0 of
          Inl e \<Rightarrow> Some (Inl e)
        | Inr r \<Rightarrow> PatternScan_while (n + fuel) vq mem this (addrs 0 + RegionSize (mbis 0)) r)"
      by (rule PatternScan_while_accepted) (rule q, rule True)
    then show ?thesis by (simp only: c nx sum.case)
  qed
  have rest: "\<forall>i<n. vq ((addrs \<circ> Suc) i) = Some ((mbis \<circ> Suc) i)
      \<and> (addrs \<circ> Suc) (Suc i) = (addrs \<circ> Suc) i + RegionSize ((mbis \<circ> Suc) i)
      \<and> (PatternScan_accepts (Assembly this) ((mbis \<circ> Suc) i) \<longrightarrow>
           (\<forall>j < unat (RegionSize ((mbis \<circ> Suc) i) - Size (Assembly this)).
              \<not> Pattern_eq (Assembly this) mem (BaseAddress ((mbis \<circ> Suc) i) + of_nat j)))"
  proof (intro allI impI)
    fix i
    assume "i < n"
    then have "Suc i < Suc n" by simp
    from Suc.prems [rule_format, OF this]
    show "vq ((addrs \<circ> Suc) i) = Some ((mbis \<circ> Suc) i)
      \<and> (addrs \<circ> Suc) (Suc i) = (addrs \<circ> Suc) i + RegionSize ((mbis \<circ> Suc) i)
      \<and> (PatternScan_accepts (Assembly this) ((mbis \<circ> Suc) i) \<longrightarrow>
           (\<forall>j < unat (RegionSize ((mbis \<circ> Suc) i) - Size (Assembly this)).
              \<not> Pattern_eq (Assembly this) mem (BaseAddress ((mbis \<circ> Suc) i) + of_nat j)))"
      unfolding o_apply .
  qed
  have "PatternScan_while (n + fuel) vq mem this ((addrs \<circ> Suc) 0) 0
     = PatternScan_while fuel vq mem this ((addrs \<circ> Suc) n) 0"
    by (rule Suc.IH [OF rest])
  with step show ?case by simp
qed

lemma demo_PatternScan_ctor: "PatternScan_ctor example_Pattern [] = Some (demo_PatternScan [])"
  by (simp add: PatternScan_ctor_def demo_PatternScan_def MAX_INSTRUCTION_LENGTH_def)

lemma PatternScan_ctor_default:
  "PatternScan_ctor Pattern_default []
     = Some \<lparr>Assembly = Pattern_default,
              Instructions = replicate MAX_INSTRUCTION_LENGTH Instruction_default, Count = 0\<rparr>"
  by (simp add: PatternScan_ctor_def)

text \<open>
  C5. A PatternScan built with no instruction holds \<^verbatim>\<open>MAX_INSTRUCTION_LENGTH\<close> default
  instructions. The verification attempt at any raw match address \<open>a\<close> runs them all
  without a failure and ends with the cursor at \<open>a\<close>; the loop over the candidate
  offsets of a region stops at the first offset \<open>k\<close> where the matcher succeeds, with
  the raw match address \<open>base + k\<close> as its result; and the loop over the regions
  returns that address (an address that is not the null pointer, which that loop reads
  as "nothing found yet"). So \<^verbatim>\<open>Scan\<close> itself, for a pattern that is not empty, returns
  the first raw match address of the walk that starts at address 0: after \<open>n\<close> regions
  that are rejected or hold no match below their last window, the first match of the
  next accepted region is the result, for any fuel of \<open>n + 2\<close> or more. For the empty
  pattern \<^verbatim>\<open>Scan\<close> returns the null pointer before any region is read, so that no
  attempt is made.
\<close>

theorem empty_sequence_reports_raw_match:
  "PatternScan_ctor aASM [] = Some this \<longrightarrow>
     (PatternScan_run (Assembly this) mem base k (Instructions this) (attempt_init a)
        = Inr (attempt_init a)
      \<and> instructionsFailed (attempt_init a) = 0 \<and> resultAddr (attempt_init a) = a)
   \<and> (k < unat endv
        \<and> (\<forall>j < k. \<not> Pattern_eq (Assembly this) mem (base + of_nat j))
        \<and> Pattern_eq (Assembly this) mem (base + of_nat k) \<longrightarrow>
          PatternScan_candidates this mem base endv 0 r = Inr (base + of_nat k))
   \<and> (vq addr = Some mbi \<and> PatternScan_accepts (Assembly this) mbi
        \<and> k < unat (RegionSize mbi - Size (Assembly this))
        \<and> (\<forall>j < k. \<not> Pattern_eq (Assembly this) mem (BaseAddress mbi + of_nat j))
        \<and> Pattern_eq (Assembly this) mem (BaseAddress mbi + of_nat k)
        \<and> BaseAddress mbi + of_nat k \<noteq> 0 \<longrightarrow>
          PatternScan_while (Suc (Suc fuel)) vq mem this addr 0
            = Some (Inr (BaseAddress mbi + of_nat k)))
   \<and> (Size (Assembly this) \<noteq> 0 \<and> addrs 0 = 0
        \<and> (\<forall>i<n. vq (addrs i) = Some (mbis i)
              \<and> addrs (Suc i) = addrs i + RegionSize (mbis i)
              \<and> (PatternScan_accepts (Assembly this) (mbis i) \<longrightarrow>
                   (\<forall>j < unat (RegionSize (mbis i) - Size (Assembly this)).
                      \<not> Pattern_eq (Assembly this) mem (BaseAddress (mbis i) + of_nat j))))
        \<and> vq (addrs n) = Some mbi \<and> PatternScan_accepts (Assembly this) mbi
        \<and> k < unat (RegionSize mbi - Size (Assembly this))
        \<and> (\<forall>j < k. \<not> Pattern_eq (Assembly this) mem (BaseAddress mbi + of_nat j))
        \<and> Pattern_eq (Assembly this) mem (BaseAddress mbi + of_nat k)
        \<and> BaseAddress mbi + of_nat k \<noteq> 0 \<longrightarrow>
          PatternScan_Scan (n + Suc (Suc fuel)) vq mem this
            = Some (Inr (BaseAddress mbi + of_nat k)))
   \<and> (Size (Assembly this) = 0 \<longrightarrow> PatternScan_Scan fuel vq mem this = Some (Inr 0))"
proof (intro impI)
  assume c: "PatternScan_ctor aASM [] = Some this"
  note f = PatternScan_ctor_empty [OF c]
  have init: "instructionsFailed (attempt_init a) = 0" "resultAddr (attempt_init a) = a" for a
    by (simp_all add: attempt_init_def)
  have run: "PatternScan_run (Assembly this) mem base k (Instructions this) (attempt_init a)
        = Inr (attempt_init a)" for base k a
    using f PatternScan_run_all_default [OF init(1)] by simp
  have cand: "PatternScan_candidates this mem base endv 0 r = Inr (base + of_nat k)"
    if "k < unat endv" "\<forall>j < k. \<not> Pattern_eq (Assembly this) mem (base + of_nat j)"
      "Pattern_eq (Assembly this) mem (base + of_nat k)" for base endv r
  proof -
    have "PatternScan_candidates this mem base endv 0 r =
       (case PatternScan_run (Assembly this) mem base k (Instructions this)
               (attempt_init (base + of_nat k)) of
          Inl e \<Rightarrow> Inl e
        | Inr st \<Rightarrow>
            if instructionsFailed st = 0 then Inr (resultAddr st)
            else PatternScan_candidates this mem base endv (k + 1) (resultAddr st))"
      using that by (intro PatternScan_candidates_first) auto
    then show ?thesis by (simp add: run init)
  qed
  have scan: "PatternScan_while (Suc (Suc fuel)) vq mem this addr 0
            = Some (Inr (BaseAddress mbi + of_nat k))"
    if "vq addr = Some mbi" "PatternScan_accepts (Assembly this) mbi"
      "k < unat (RegionSize mbi - Size (Assembly this))"
      "\<forall>j < k. \<not> Pattern_eq (Assembly this) mem (BaseAddress mbi + of_nat j)"
      "Pattern_eq (Assembly this) mem (BaseAddress mbi + of_nat k)"
      "BaseAddress mbi + of_nat k \<noteq> 0" for addr
  proof -
    have "PatternScan_while (Suc (Suc fuel)) vq mem this addr 0
       = (case PatternScan_candidates this mem (BaseAddress mbi)
               (RegionSize mbi - Size (Assembly this)) 0 0 of
          Inl e \<Rightarrow> Some (Inl e)
        | Inr r \<Rightarrow> PatternScan_while (Suc fuel) vq mem this (addr + RegionSize mbi) r)"
      by (rule PatternScan_while_accepted) (rule that(1), rule that(2))
    also have "\<dots> = PatternScan_while (Suc fuel) vq mem this (addr + RegionSize mbi)
        (BaseAddress mbi + of_nat k)"
      using cand [OF that(3,4,5)] by simp
    also have "\<dots> = Some (Inr (BaseAddress mbi + of_nat k))"
      by (rule PatternScan_while_found) (rule that(6))
    finally show ?thesis .
  qed
  have whole: "PatternScan_Scan (n + Suc (Suc fuel)) vq mem this
            = Some (Inr (BaseAddress mbi + of_nat k))"
    if nz: "Size (Assembly this) \<noteq> 0" and a0: "addrs 0 = 0"
      and walk: "\<forall>i<n. vq (addrs i) = Some (mbis i)
              \<and> addrs (Suc i) = addrs i + RegionSize (mbis i)
              \<and> (PatternScan_accepts (Assembly this) (mbis i) \<longrightarrow>
                   (\<forall>j < unat (RegionSize (mbis i) - Size (Assembly this)).
                      \<not> Pattern_eq (Assembly this) mem (BaseAddress (mbis i) + of_nat j)))"
      and hit: "vq (addrs n) = Some mbi" "PatternScan_accepts (Assembly this) mbi"
      "k < unat (RegionSize mbi - Size (Assembly this))"
      "\<forall>j < k. \<not> Pattern_eq (Assembly this) mem (BaseAddress mbi + of_nat j)"
      "Pattern_eq (Assembly this) mem (BaseAddress mbi + of_nat k)"
      "BaseAddress mbi + of_nat k \<noteq> 0"
  proof -
    have "PatternScan_Scan (n + Suc (Suc fuel)) vq mem this
        = PatternScan_while (n + Suc (Suc fuel)) vq mem this (addrs 0) 0"
      using nz by (simp add: PatternScan_Scan_def a0)
    also have "\<dots> = PatternScan_while (Suc (Suc fuel)) vq mem this (addrs n) 0"
      by (rule PatternScan_while_skip [OF walk])
    also have "\<dots> = Some (Inr (BaseAddress mbi + of_nat k))"
      by (rule scan [OF hit])
    finally show ?thesis .
  qed
  have empty: "Size (Assembly this) = 0 \<Longrightarrow> PatternScan_Scan fuel vq mem this = Some (Inr 0)"
    by (simp add: PatternScan_Scan_def)
  show "(PatternScan_run (Assembly this) mem base k (Instructions this) (attempt_init a)
        = Inr (attempt_init a)
      \<and> instructionsFailed (attempt_init a) = 0 \<and> resultAddr (attempt_init a) = a)
   \<and> (k < unat endv
        \<and> (\<forall>j < k. \<not> Pattern_eq (Assembly this) mem (base + of_nat j))
        \<and> Pattern_eq (Assembly this) mem (base + of_nat k) \<longrightarrow>
          PatternScan_candidates this mem base endv 0 r = Inr (base + of_nat k))
   \<and> (vq addr = Some mbi \<and> PatternScan_accepts (Assembly this) mbi
        \<and> k < unat (RegionSize mbi - Size (Assembly this))
        \<and> (\<forall>j < k. \<not> Pattern_eq (Assembly this) mem (BaseAddress mbi + of_nat j))
        \<and> Pattern_eq (Assembly this) mem (BaseAddress mbi + of_nat k)
        \<and> BaseAddress mbi + of_nat k \<noteq> 0 \<longrightarrow>
          PatternScan_while (Suc (Suc fuel)) vq mem this addr 0
            = Some (Inr (BaseAddress mbi + of_nat k)))
   \<and> (Size (Assembly this) \<noteq> 0 \<and> addrs 0 = 0
        \<and> (\<forall>i<n. vq (addrs i) = Some (mbis i)
              \<and> addrs (Suc i) = addrs i + RegionSize (mbis i)
              \<and> (PatternScan_accepts (Assembly this) (mbis i) \<longrightarrow>
                   (\<forall>j < unat (RegionSize (mbis i) - Size (Assembly this)).
                      \<not> Pattern_eq (Assembly this) mem (BaseAddress (mbis i) + of_nat j))))
        \<and> vq (addrs n) = Some mbi \<and> PatternScan_accepts (Assembly this) mbi
        \<and> k < unat (RegionSize mbi - Size (Assembly this))
        \<and> (\<forall>j < k. \<not> Pattern_eq (Assembly this) mem (BaseAddress mbi + of_nat j))
        \<and> Pattern_eq (Assembly this) mem (BaseAddress mbi + of_nat k)
        \<and> BaseAddress mbi + of_nat k \<noteq> 0 \<longrightarrow>
          PatternScan_Scan (n + Suc (Suc fuel)) vq mem this
            = Some (Inr (BaseAddress mbi + of_nat k)))
   \<and> (Size (Assembly this) = 0 \<longrightarrow> PatternScan_Scan fuel vq mem this = Some (Inr 0))"
  proof (intro conjI impI)
    show "PatternScan_run (Assembly this) mem base k (Instructions this) (attempt_init a)
        = Inr (attempt_init a)" by (rule run)
    show "instructionsFailed (attempt_init a) = 0" "resultAddr (attempt_init a) = a"
      by (rule init)+
  next
    assume "k < unat endv
        \<and> (\<forall>j < k. \<not> Pattern_eq (Assembly this) mem (base + of_nat j))
        \<and> Pattern_eq (Assembly this) mem (base + of_nat k)"
    then show "PatternScan_candidates this mem base endv 0 r = Inr (base + of_nat k)"
      by (intro cand) simp_all
  next
    assume "vq addr = Some mbi \<and> PatternScan_accepts (Assembly this) mbi
        \<and> k < unat (RegionSize mbi - Size (Assembly this))
        \<and> (\<forall>j < k. \<not> Pattern_eq (Assembly this) mem (BaseAddress mbi + of_nat j))
        \<and> Pattern_eq (Assembly this) mem (BaseAddress mbi + of_nat k)
        \<and> BaseAddress mbi + of_nat k \<noteq> 0"
    then show "PatternScan_while (Suc (Suc fuel)) vq mem this addr 0
            = Some (Inr (BaseAddress mbi + of_nat k))"
      by (intro scan) simp_all
  next
    assume "Size (Assembly this) \<noteq> 0 \<and> addrs 0 = 0
        \<and> (\<forall>i<n. vq (addrs i) = Some (mbis i)
              \<and> addrs (Suc i) = addrs i + RegionSize (mbis i)
              \<and> (PatternScan_accepts (Assembly this) (mbis i) \<longrightarrow>
                   (\<forall>j < unat (RegionSize (mbis i) - Size (Assembly this)).
                      \<not> Pattern_eq (Assembly this) mem (BaseAddress (mbis i) + of_nat j))))
        \<and> vq (addrs n) = Some mbi \<and> PatternScan_accepts (Assembly this) mbi
        \<and> k < unat (RegionSize mbi - Size (Assembly this))
        \<and> (\<forall>j < k. \<not> Pattern_eq (Assembly this) mem (BaseAddress mbi + of_nat j))
        \<and> Pattern_eq (Assembly this) mem (BaseAddress mbi + of_nat k)
        \<and> BaseAddress mbi + of_nat k \<noteq> 0"
    then show "PatternScan_Scan (n + Suc (Suc fuel)) vq mem this
            = Some (Inr (BaseAddress mbi + of_nat k))"
      by (intro whole) simp_all
  next
    assume "Size (Assembly this) = 0"
    then show "PatternScan_Scan fuel vq mem this = Some (Inr 0)" by (rule empty)
  qed
qed

theorem empty_sequence_reports_raw_match_witness:
  "PatternScan_ctor example_Pattern [] = Some (demo_PatternScan [])
   \<and> PatternScan_run example_Pattern demo_memory 0x10000 0xFFC
        (Instructions (demo_PatternScan [])) (attempt_init 0x10FFC) = Inr (attempt_init 0x10FFC)
   \<and> Pattern_eq example_Pattern demo_memory (0x10000 + of_nat 0xFFC)
   \<and> PatternScan_candidates (demo_PatternScan []) demo_memory 0x10000 0x1FFC 0 0 = Inr 0x10FFC
   \<and> demo_VirtualQuery 0x2000 PAGE_EXECUTE_READ 0x10000 = Some (demo_region 0x2000 PAGE_EXECUTE_READ)
   \<and> PatternScan_accepts example_Pattern (demo_region 0x2000 PAGE_EXECUTE_READ)
   \<and> PatternScan_while 2 (demo_VirtualQuery 0x2000 PAGE_EXECUTE_READ) demo_memory
        (demo_PatternScan []) 0x10000 0 = Some (Inr 0x10FFC)
   \<and> Size (Assembly (demo_PatternScan [])) \<noteq> 0
   \<and> demo_VirtualQuery 0x2000 PAGE_EXECUTE_READ 0 = Some demo_free
   \<and> 0 + RegionSize demo_free = 0x10000
   \<and> \<not> PatternScan_accepts example_Pattern demo_free
   \<and> PatternScan_Scan 3 (demo_VirtualQuery 0x2000 PAGE_EXECUTE_READ) demo_memory
        (demo_PatternScan []) = Some (Inr 0x10FFC)
   \<and> PatternScan_ctor Pattern_default []
        = Some \<lparr>Assembly = Pattern_default,
                 Instructions = replicate MAX_INSTRUCTION_LENGTH Instruction_default, Count = 0\<rparr>
   \<and> Size Pattern_default = 0
   \<and> PatternScan_Scan 3 (demo_VirtualQuery 0x2000 PAGE_EXECUTE_READ) demo_memory
        \<lparr>Assembly = Pattern_default,
         Instructions = replicate MAX_INSTRUCTION_LENGTH Instruction_default, Count = 0\<rparr>
       = Some (Inr 0)"
proof -
  let ?vq = "demo_VirtualQuery 0x2000 PAGE_EXECUTE_READ"
  let ?mbi = "demo_region 0x2000 PAGE_EXECUTE_READ"
  let ?addrs = "\<lambda>i :: nat. if i = 0 then 0 else (0x10000 :: addr)"
  let ?mbis = "\<lambda>i :: nat. demo_free"
  let ?e = "\<lparr>Assembly = Pattern_default,
         Instructions = replicate MAX_INSTRUCTION_LENGTH Instruction_default, Count = 0\<rparr>"
  have c: "PatternScan_ctor example_Pattern [] = Some (demo_PatternScan [])"
    by (rule demo_PatternScan_ctor)
  have q: "?vq 0x10000 = Some ?mbi" by (simp add: demo_VirtualQuery_region)
  have q0: "?vq 0 = Some demo_free" by (rule demo_VirtualQuery_0)
  have acc: "PatternScan_accepts example_Pattern ?mbi" by (simp add: demo_region_accepted)
  have rej: "\<not> PatternScan_accepts example_Pattern demo_free" by (rule demo_free_rejected)
  have m: "Pattern_eq example_Pattern demo_memory (0x10000 + of_nat 0xFFC)"
    by (rule demo_last_window)
  have e: "\<forall>j < 0xFFC. \<not> Pattern_eq example_Pattern demo_memory (0x10000 + of_nat j)"
    by (simp add: demo_no_early_match)
  have k1: "(0xFFC :: nat) < unat (0x1FFC :: 64 word)" by simp
  have k2: "(0xFFC :: nat) < unat (RegionSize ?mbi - Size example_Pattern)"
    by (simp add: demo_region_def example_Pattern_def)
  have nz: "(0x10000 + of_nat 0xFFC :: 64 word) \<noteq> 0" by simp
  have b: "BaseAddress ?mbi = 0x10000" by (simp add: demo_region_def)
  have sz: "Size example_Pattern \<noteq> 0" by (simp add: example_Pattern_def)
  have fr: "0 + RegionSize demo_free = 0x10000" by (simp add: demo_free_def)
  have walk: "\<forall>i<Suc 0. ?vq (?addrs i) = Some (?mbis i)
              \<and> ?addrs (Suc i) = ?addrs i + RegionSize (?mbis i)
              \<and> (PatternScan_accepts example_Pattern (?mbis i) \<longrightarrow>
                   (\<forall>j < unat (RegionSize (?mbis i) - Size example_Pattern).
                      \<not> Pattern_eq example_Pattern demo_memory (BaseAddress (?mbis i) + of_nat j)))"
    using q0 rej fr by simp
  have hit: "?vq (?addrs (Suc 0)) = Some ?mbi" using q by simp
  note t = empty_sequence_reports_raw_match
    [of example_Pattern "demo_PatternScan []" demo_memory "0x10000" "0xFFC" "0x10FFC"
        "0x1FFC" 0 ?vq "0x10000" ?mbi 0 ?addrs "Suc 0" ?mbis,
     unfolded demo_PatternScan_fields b]
  note u = empty_sequence_reports_raw_match
    [of Pattern_default ?e demo_memory "0x10000" "0xFFC" "0x10FFC"
        "0x1FFC" 0 ?vq "0x10000" ?mbi "Suc (Suc (Suc 0))" ?addrs "Suc 0" ?mbis]
  from t c have 1: "PatternScan_run example_Pattern demo_memory 0x10000 0xFFC
        (replicate (MAX_INSTRUCTION_LENGTH - length []) Instruction_default) (attempt_init 0x10FFC)
      = Inr (attempt_init 0x10FFC)"
    by simp
  from t c k1 e m have 2: "PatternScan_candidates (demo_PatternScan []) demo_memory 0x10000 0x1FFC 0 0
      = Inr (0x10000 + of_nat 0xFFC)"
    by blast
  from t c q acc k2 e m nz have 3: "PatternScan_while (Suc (Suc 0)) ?vq demo_memory
        (demo_PatternScan []) 0x10000 0 = Some (Inr (0x10000 + of_nat 0xFFC))"
    by blast
  have a0: "?addrs 0 = 0" by simp
  from t c sz a0 walk hit acc k2 e m nz
  have 4: "PatternScan_Scan (Suc 0 + Suc (Suc 0)) ?vq demo_memory (demo_PatternScan [])
      = Some (Inr (0x10000 + of_nat 0xFFC))"
    by blast
  have s0: "Size (Assembly ?e) = 0" by (simp add: Pattern_default_def)
  from u PatternScan_ctor_default s0
  have 5: "PatternScan_Scan (Suc (Suc (Suc 0))) ?vq demo_memory ?e = Some (Inr 0)"
    by blast
  have sd: "Size Pattern_default = 0" by (simp add: Pattern_default_def)
  show ?thesis
    using c 1 2 3 4 5 q q0 acc rej m sz fr sd PatternScan_ctor_default
    by (simp add: demo_PatternScan_fields numeral_2_eq_2 numeral_3_eq_3
          del: PatternScan_while.simps)
qed

subsection \<open>The last window of a region\<close>

text \<open>
  C10. In both revisions the loop over the candidate offsets of an accepted region
  runs over the offsets below \<^verbatim>\<open>end = RegionSize - Size\<close>. When the matcher fails at
  every offset below \<^verbatim>\<open>end\<close>, the region yields nothing, whatever the window at the
  offset \<^verbatim>\<open>end\<close> itself holds, the last one that lies inside the region; and when that
  region is the last one the host reports, the scan returns the null pointer: "not
  found". Every offset below \<^verbatim>\<open>end\<close> is tested: the first of them where the matcher
  succeeds is the candidate that the instructions verify.
\<close>

theorem final_window_never_tested:
  "((\<forall>k < unat (RegionSize mbi - Size (Assembly this)).
        \<not> Pattern_eq (Assembly this) mem (BaseAddress mbi + of_nat k)) \<longrightarrow>
      PatternScan_candidates this mem (BaseAddress mbi)
          (RegionSize mbi - Size (Assembly this)) 0 0 = Inr 0
      \<and> (vq addr = Some mbi \<and> PatternScan_accepts (Assembly this) mbi
           \<and> vq (addr + RegionSize mbi) = None \<longrightarrow>
            PatternScan_while (Suc (Suc fuel)) vq mem this addr 0 = Some (Inr 0)))
   \<and> (k < unat (RegionSize mbi - Size (Assembly this))
        \<and> (\<forall>j < k. \<not> Pattern_eq (Assembly this) mem (BaseAddress mbi + of_nat j))
        \<and> Pattern_eq (Assembly this) mem (BaseAddress mbi + of_nat k) \<longrightarrow>
          PatternScan_candidates this mem (BaseAddress mbi)
              (RegionSize mbi - Size (Assembly this)) 0 0
          = (case PatternScan_run (Assembly this) mem (BaseAddress mbi) k (Instructions this)
                    (attempt_init (BaseAddress mbi + of_nat k)) of
               Inl e \<Rightarrow> Inl e
             | Inr st \<Rightarrow>
                 if instructionsFailed st = 0 then Inr (resultAddr st)
                 else PatternScan_candidates this mem (BaseAddress mbi)
                        (RegionSize mbi - Size (Assembly this)) (k + 1) (resultAddr st)))
   \<and> ((\<forall>k < unat (RegionSize mbi - Size (DS_Assembly that)).
        \<not> Pattern_eq (DS_Assembly that) mem (BaseAddress mbi + of_nat k)) \<longrightarrow>
      DataScan_candidates that mem (BaseAddress mbi)
          (RegionSize mbi - Size (DS_Assembly that)) 0 0 = Inr 0
      \<and> (vq addr = Some mbi \<and> DataScan_accepts (DS_Assembly that) mbi
           \<and> addr \<ge> lpBaseOfDll modInfo
           \<and> addr \<le> lpBaseOfDll modInfo + ucast (SizeOfImage modInfo)
           \<and> vq (addr + RegionSize mbi) = None \<longrightarrow>
            DataScan_while (Suc (Suc fuel)) vq modInfo mem that addr 0 = Some (Inr 0)))
   \<and> (k < unat (RegionSize mbi - Size (DS_Assembly that))
        \<and> (\<forall>j < k. \<not> Pattern_eq (DS_Assembly that) mem (BaseAddress mbi + of_nat j))
        \<and> Pattern_eq (DS_Assembly that) mem (BaseAddress mbi + of_nat k) \<longrightarrow>
          DataScan_candidates that mem (BaseAddress mbi)
              (RegionSize mbi - Size (DS_Assembly that)) 0 0
          = (case DataScan_run mem (DS_Instructions that)
                    (attempt_init (BaseAddress mbi + of_nat k)) of
               Inl e \<Rightarrow> Inl e
             | Inr st \<Rightarrow>
                 if instructionsFailed st = 0 then Inr (resultAddr st)
                 else DataScan_candidates that mem (BaseAddress mbi)
                        (RegionSize mbi - Size (DS_Assembly that)) (k + 1) (resultAddr st)))"
proof (intro conjI impI)
  assume no: "\<forall>k < unat (RegionSize mbi - Size (Assembly this)).
        \<not> Pattern_eq (Assembly this) mem (BaseAddress mbi + of_nat k)"
  show c: "PatternScan_candidates this mem (BaseAddress mbi)
          (RegionSize mbi - Size (Assembly this)) 0 0 = Inr 0"
    using no by (intro PatternScan_candidates_none) simp
  assume h: "vq addr = Some mbi \<and> PatternScan_accepts (Assembly this) mbi
           \<and> vq (addr + RegionSize mbi) = None"
  have "PatternScan_while (Suc (Suc fuel)) vq mem this addr 0
       = (case PatternScan_candidates this mem (BaseAddress mbi)
               (RegionSize mbi - Size (Assembly this)) 0 0 of
          Inl e \<Rightarrow> Some (Inl e)
        | Inr r \<Rightarrow> PatternScan_while (Suc fuel) vq mem this (addr + RegionSize mbi) r)"
    by (rule PatternScan_while_accepted) (simp_all add: h)
  also have "\<dots> = PatternScan_while (Suc fuel) vq mem this (addr + RegionSize mbi) 0"
    by (simp add: c del: PatternScan_while.simps)
  also have "\<dots> = Some (Inr 0)"
    by (rule PatternScan_while_end) (simp add: h)
  finally show "PatternScan_while (Suc (Suc fuel)) vq mem this addr 0 = Some (Inr 0)" .
next
  assume "k < unat (RegionSize mbi - Size (Assembly this))
        \<and> (\<forall>j < k. \<not> Pattern_eq (Assembly this) mem (BaseAddress mbi + of_nat j))
        \<and> Pattern_eq (Assembly this) mem (BaseAddress mbi + of_nat k)"
  then show "PatternScan_candidates this mem (BaseAddress mbi)
              (RegionSize mbi - Size (Assembly this)) 0 0
          = (case PatternScan_run (Assembly this) mem (BaseAddress mbi) k (Instructions this)
                    (attempt_init (BaseAddress mbi + of_nat k)) of
               Inl e \<Rightarrow> Inl e
             | Inr st \<Rightarrow>
                 if instructionsFailed st = 0 then Inr (resultAddr st)
                 else PatternScan_candidates this mem (BaseAddress mbi)
                        (RegionSize mbi - Size (Assembly this)) (k + 1) (resultAddr st))"
    by (intro PatternScan_candidates_first) auto
next
  assume no: "\<forall>k < unat (RegionSize mbi - Size (DS_Assembly that)).
        \<not> Pattern_eq (DS_Assembly that) mem (BaseAddress mbi + of_nat k)"
  show c: "DataScan_candidates that mem (BaseAddress mbi)
          (RegionSize mbi - Size (DS_Assembly that)) 0 0 = Inr 0"
    using no by (intro DataScan_candidates_none) simp
  assume h: "vq addr = Some mbi \<and> DataScan_accepts (DS_Assembly that) mbi
           \<and> addr \<ge> lpBaseOfDll modInfo
           \<and> addr \<le> lpBaseOfDll modInfo + ucast (SizeOfImage modInfo)
           \<and> vq (addr + RegionSize mbi) = None"
  have "DataScan_while (Suc (Suc fuel)) vq modInfo mem that addr 0
       = (case DataScan_candidates that mem (BaseAddress mbi)
               (RegionSize mbi - Size (DS_Assembly that)) 0 0 of
          Inl e \<Rightarrow> Some (Inl e)
        | Inr r \<Rightarrow> DataScan_while (Suc fuel) vq modInfo mem that (addr + RegionSize mbi) r)"
    by (rule DataScan_while_accepted) (simp_all add: h)
  also have "\<dots> = DataScan_while (Suc fuel) vq modInfo mem that (addr + RegionSize mbi) 0"
    by (simp add: c del: DataScan_while.simps)
  also have "\<dots> = Some (Inr 0)"
    by (rule DataScan_while_end) (simp add: h)
  finally show "DataScan_while (Suc (Suc fuel)) vq modInfo mem that addr 0 = Some (Inr 0)" .
next
  assume "k < unat (RegionSize mbi - Size (DS_Assembly that))
        \<and> (\<forall>j < k. \<not> Pattern_eq (DS_Assembly that) mem (BaseAddress mbi + of_nat j))
        \<and> Pattern_eq (DS_Assembly that) mem (BaseAddress mbi + of_nat k)"
  then show "DataScan_candidates that mem (BaseAddress mbi)
              (RegionSize mbi - Size (DS_Assembly that)) 0 0
          = (case DataScan_run mem (DS_Instructions that)
                    (attempt_init (BaseAddress mbi + of_nat k)) of
               Inl e \<Rightarrow> Inl e
             | Inr st \<Rightarrow>
                 if instructionsFailed st = 0 then Inr (resultAddr st)
                 else DataScan_candidates that mem (BaseAddress mbi)
                        (RegionSize mbi - Size (DS_Assembly that)) (k + 1) (resultAddr st))"
    by (intro DataScan_candidates_first) auto
qed

theorem final_window_never_tested_witness:
  "RegionSize (demo_region 0x1000 PAGE_EXECUTE_READ) - Size example_Pattern = 0xFFC
   \<and> Pattern_eq example_Pattern demo_memory (0x10000 + 0xFFC)
   \<and> PatternScan_candidates (demo_PatternScan []) demo_memory 0x10000 0xFFC 0 0 = Inr 0
   \<and> demo_VirtualQuery 0x1000 PAGE_EXECUTE_READ 0x10000 = Some (demo_region 0x1000 PAGE_EXECUTE_READ)
   \<and> demo_VirtualQuery 0x1000 PAGE_EXECUTE_READ 0x11000 = None
   \<and> PatternScan_accepts example_Pattern (demo_region 0x1000 PAGE_EXECUTE_READ)
   \<and> PatternScan_while 2 (demo_VirtualQuery 0x1000 PAGE_EXECUTE_READ) demo_memory
        (demo_PatternScan []) 0x10000 0 = Some (Inr 0)
   \<and> DataScan_candidates (demo_DataScan []) demo_memory 0x10000 0xFFC 0 0 = Inr 0
   \<and> DataScan_accepts example_Pattern (demo_region 0x1000 PAGE_EXECUTE_READ)
   \<and> DataScan_while 2 (demo_VirtualQuery 0x1000 PAGE_EXECUTE_READ) demo_modInfo demo_memory
        (demo_DataScan []) 0x10000 0 = Some (Inr 0)
   \<and> PatternScan_candidates (demo_PatternScan []) demo_memory 0x10000 0x1FFC 0 0 = Inr 0x10FFC
   \<and> DataScan_candidates (demo_DataScan []) demo_memory 0x10000 0x1FFC 0 0 = Inr 0x10FFC"
proof -
  let ?vq = "demo_VirtualQuery 0x1000 PAGE_EXECUTE_READ"
  let ?mbi = "demo_region 0x1000 PAGE_EXECUTE_READ"
  let ?mbi2 = "demo_region 0x2000 PAGE_EXECUTE_READ"
  have b: "BaseAddress ?mbi = 0x10000" "RegionSize ?mbi = 0x1000"
    "BaseAddress ?mbi2 = 0x10000" "RegionSize ?mbi2 = 0x2000"
    by (simp_all add: demo_region_def)
  have s: "Size example_Pattern = 4" by (simp add: example_Pattern_def)
  have q: "?vq 0x10000 = Some ?mbi" by (simp add: demo_VirtualQuery_region)
  have qe: "?vq (0x10000 + 0x1000) = None" by (rule demo_VirtualQuery_end) simp
  have acc: "PatternScan_accepts example_Pattern ?mbi" "DataScan_accepts example_Pattern ?mbi"
    by (simp_all add: demo_region_accepted)
  have inm: "(0x10000 :: addr) \<ge> lpBaseOfDll demo_modInfo"
    "(0x10000 :: addr) \<le> lpBaseOfDll demo_modInfo + ucast (SizeOfImage demo_modInfo)"
    by (simp_all add: demo_modInfo_def)
  have e: "\<forall>j < unat (0x1000 - 4 :: 64 word).
      \<not> Pattern_eq example_Pattern demo_memory (0x10000 + of_nat j)"
    by (simp add: demo_no_early_match)
  have e2: "\<forall>j < 0xFFC. \<not> Pattern_eq example_Pattern demo_memory (0x10000 + of_nat j)"
    by (simp add: demo_no_early_match)
  have m: "Pattern_eq example_Pattern demo_memory (0x10000 + of_nat 0xFFC)"
    by (rule demo_last_window)
  have k2: "(0xFFC :: nat) < unat (0x2000 - 4 :: 64 word)" by simp
  have f0: "instructionsFailed (attempt_init a) = 0" for a by (simp add: attempt_init_def)
  have r0: "resultAddr (attempt_init a) = a" for a by (simp add: attempt_init_def)
  have rp: "PatternScan_run example_Pattern demo_memory 0x10000 0xFFC
      (Instructions (demo_PatternScan [])) (attempt_init a) = Inr (attempt_init a)" for a
    using PatternScan_run_all_default [OF f0] by (simp add: demo_PatternScan_fields)
  have rd: "DataScan_run demo_memory (DS_Instructions (demo_DataScan [])) (attempt_init a)
      = Inr (attempt_init a)" for a
    by (simp add: demo_DataScan_fields)
  note t1 = final_window_never_tested
    [of ?mbi "demo_PatternScan []" demo_memory ?vq "0x10000" 0 0 "demo_DataScan []" demo_modInfo,
     unfolded demo_PatternScan_fields demo_DataScan_fields b s]
  note t2 = final_window_never_tested
    [of ?mbi2 "demo_PatternScan []" demo_memory ?vq "0x10000" 0 "0xFFC" "demo_DataScan []"
        demo_modInfo,
     unfolded demo_PatternScan_fields(1) demo_DataScan_fields(1) b s]
  from t1 e have 1: "PatternScan_candidates (demo_PatternScan []) demo_memory 0x10000
      (0x1000 - 4) 0 0 = Inr 0"
    by blast
  from t1 e q qe acc have 2: "PatternScan_while (Suc (Suc 0)) ?vq demo_memory
      (demo_PatternScan []) 0x10000 0 = Some (Inr 0)"
    by blast
  from t1 e have 3: "DataScan_candidates (demo_DataScan []) demo_memory 0x10000
      (0x1000 - 4) 0 0 = Inr 0"
    by blast
  from t1 e q qe acc inm have 4: "DataScan_while (Suc (Suc 0)) ?vq demo_modInfo demo_memory
      (demo_DataScan []) 0x10000 0 = Some (Inr 0)"
    by blast
  from t2 k2 e2 m have 5: "PatternScan_candidates (demo_PatternScan []) demo_memory 0x10000
      (0x2000 - 4) 0 0
     = (case PatternScan_run example_Pattern demo_memory 0x10000 0xFFC
                (Instructions (demo_PatternScan [])) (attempt_init (0x10000 + of_nat 0xFFC)) of
               Inl e \<Rightarrow> Inl e
             | Inr st \<Rightarrow>
                 if instructionsFailed st = 0 then Inr (resultAddr st)
                 else PatternScan_candidates (demo_PatternScan []) demo_memory 0x10000
                        (0x2000 - 4) (0xFFC + 1) (resultAddr st))"
    by blast
  from t2 k2 e2 m have 6: "DataScan_candidates (demo_DataScan []) demo_memory 0x10000
      (0x2000 - 4) 0 0
     = (case DataScan_run demo_memory (DS_Instructions (demo_DataScan []))
                (attempt_init (0x10000 + of_nat 0xFFC)) of
               Inl e \<Rightarrow> Inl e
             | Inr st \<Rightarrow>
                 if instructionsFailed st = 0 then Inr (resultAddr st)
                 else DataScan_candidates (demo_DataScan []) demo_memory 0x10000
                        (0x2000 - 4) (0xFFC + 1) (resultAddr st))"
    by blast
  have c5: "PatternScan_candidates (demo_PatternScan []) demo_memory 0x10000 0x1FFC 0 0
      = Inr 0x10FFC"
    using 5 by (simp add: rp f0 r0)
  have c6: "DataScan_candidates (demo_DataScan []) demo_memory 0x10000 0x1FFC 0 0
      = Inr 0x10FFC"
    using 6 by (simp add: rd f0 r0)
  show ?thesis
    using 1 2 3 4 c5 c6 q qe acc m
    by (simp add: b s numeral_2_eq_2 del: PatternScan_while.simps DataScan_while.simps)
qed

subsection \<open>Which regions are scanned\<close>

lemma demo_region_readwrite:
  "\<not> PatternScan_accepts example_Pattern (demo_region sz PAGE_READWRITE)"
  "sz = 0x1000 \<or> sz = 0x2000 \<Longrightarrow>
   DataScan_accepts example_Pattern (demo_region sz PAGE_READWRITE)"
  by (auto simp: PatternScan_accepts_def DataScan_accepts_def demo_region_def example_Pattern_def
        PAGE_EXECUTE_READ_def PAGE_EXECUTE_READWRITE_def PAGE_READONLY_def PAGE_READWRITE_def)

text \<open>
  C1. A region is to be accepted for candidate matching exactly when it is committed,
  its size is at least the size of the pattern, and its protection is read-only,
  read-write, execute-read or execute-read-write. \<^verbatim>\<open>DataScan::Scan\<close> tests these four
  protections. \<^verbatim>\<open>PatternScan::Scan\<close>, under the same comment
  \<^verbatim>\<open>Skip pages without read permission\<close>, compares the protection with
  \<^verbatim>\<open>PAGE_EXECUTE_READ\<close> and \<^verbatim>\<open>PAGE_EXECUTE_READWRITE\<close> only. On a host whose committed
  region of 0x2000 bytes is read-only, or read-write, and holds the pattern at
  \<open>0x10FFC\<close>, \<^verbatim>\<open>PatternScan::Scan\<close> skips the region and returns the null pointer, where
  \<^verbatim>\<open>DataScan::Scan\<close> accepts the region and returns \<open>0x10FFC\<close>, as
  \<^verbatim>\<open>PatternScan::Scan\<close> does when the same region is execute-read.
\<close>

theorem PatternScan_skips_readable_region:
  "State (demo_region 0x2000 PAGE_READONLY) = MEM_COMMIT
   \<and> Size example_Pattern \<le> RegionSize (demo_region 0x2000 PAGE_READONLY)
   \<and> Protect (demo_region 0x2000 PAGE_READONLY) = PAGE_READONLY
   \<and> Pattern_eq example_Pattern demo_memory 0x10FFC
   \<and> \<not> PatternScan_accepts example_Pattern (demo_region 0x2000 PAGE_READONLY)
   \<and> PatternScan_Scan 3 (demo_VirtualQuery 0x2000 PAGE_READONLY) demo_memory (demo_PatternScan [])
       = Some (Inr 0)
   \<and> DataScan_accepts example_Pattern (demo_region 0x2000 PAGE_READONLY)
   \<and> DataScan_Scan 2 (demo_VirtualQuery 0x2000 PAGE_READONLY) demo_modInfo demo_memory
        (demo_DataScan []) = Some (Inr 0x10FFC)
   \<and> \<not> PatternScan_accepts example_Pattern (demo_region 0x2000 PAGE_READWRITE)
   \<and> PatternScan_Scan 3 (demo_VirtualQuery 0x2000 PAGE_READWRITE) demo_memory (demo_PatternScan [])
       = Some (Inr 0)
   \<and> DataScan_accepts example_Pattern (demo_region 0x2000 PAGE_READWRITE)
   \<and> DataScan_Scan 2 (demo_VirtualQuery 0x2000 PAGE_READWRITE) demo_modInfo demo_memory
        (demo_DataScan []) = Some (Inr 0x10FFC)
   \<and> PatternScan_accepts example_Pattern (demo_region 0x2000 PAGE_EXECUTE_READ)
   \<and> PatternScan_Scan 3 (demo_VirtualQuery 0x2000 PAGE_EXECUTE_READ) demo_memory
        (demo_PatternScan []) = Some (Inr 0x10FFC)"
proof -
  have f0: "instructionsFailed (attempt_init a) = 0" for a by (simp add: attempt_init_def)
  have r0: "resultAddr (attempt_init a) = a" for a by (simp add: attempt_init_def)
  have rp: "PatternScan_run example_Pattern demo_memory 0x10000 0xFFC
      (Instructions (demo_PatternScan [])) (attempt_init a) = Inr (attempt_init a)" for a
    using PatternScan_run_all_default [OF f0] by (simp add: demo_PatternScan_fields)
  have cp: "PatternScan_candidates (demo_PatternScan []) demo_memory 0x10000 (0x2000 - 4) 0 0
      = Inr 0x10FFC"
    by (simp only: demo_PatternScan_candidates_2000 rp) (simp add: f0 r0)
  have cd: "DataScan_candidates (demo_DataScan []) demo_memory 0x10000 (0x2000 - 4) 0 0
      = Inr 0x10FFC"
    by (simp only: demo_DataScan_candidates_2000 demo_DataScan_fields DataScan_run.simps)
       (simp add: f0 r0)
  have 1: "PatternScan_Scan (Suc (Suc (Suc 0))) (demo_VirtualQuery 0x2000 PAGE_READONLY)
      demo_memory (demo_PatternScan []) = Some (Inr 0)"
    by (subst demo_PatternScan_Scan) (simp_all add: demo_region_accepted)
  have 2: "PatternScan_Scan (Suc (Suc (Suc 0))) (demo_VirtualQuery 0x2000 PAGE_EXECUTE_READ)
      demo_memory (demo_PatternScan []) = Some (Inr 0x10FFC)"
    by (subst demo_PatternScan_Scan) (simp_all add: demo_region_accepted cp [simplified])
  have 3: "State (demo_region 0x2000 PAGE_READONLY) = MEM_COMMIT
      \<and> Size example_Pattern \<le> RegionSize (demo_region 0x2000 PAGE_READONLY)
      \<and> Protect (demo_region 0x2000 PAGE_READONLY) = PAGE_READONLY"
    by (simp add: demo_region_def example_Pattern_def)
  have 4: "DataScan_Scan (Suc (Suc 0)) (demo_VirtualQuery 0x2000 PAGE_READONLY) demo_modInfo
      demo_memory (demo_DataScan []) = Some (Inr 0x10FFC)"
    by (subst demo_DataScan_Scan) (simp_all add: demo_region_accepted cd [simplified])
  have 5: "PatternScan_Scan (Suc (Suc (Suc 0))) (demo_VirtualQuery 0x2000 PAGE_READWRITE)
      demo_memory (demo_PatternScan []) = Some (Inr 0)"
    by (subst demo_PatternScan_Scan) (simp_all add: demo_region_readwrite)
  have 6: "DataScan_Scan (Suc (Suc 0)) (demo_VirtualQuery 0x2000 PAGE_READWRITE) demo_modInfo
      demo_memory (demo_DataScan []) = Some (Inr 0x10FFC)"
    by (subst demo_DataScan_Scan) (simp_all add: demo_region_readwrite cd [simplified])
  show ?thesis
    using 1 2 3 4 5 6
    by (simp add: numeral_3_eq_3 numeral_2_eq_2 demo_region_accepted demo_region_readwrite
          demo_match_iff)
qed

subsection \<open>The pattern compiler\<close>

lemma is_hex_digit_cases:
  "is_hex_digit c \<longleftrightarrow>
     c = CHR ''0'' \<or> c = CHR ''1'' \<or> c = CHR ''2'' \<or> c = CHR ''3'' \<or> c = CHR ''4''
   \<or> c = CHR ''5'' \<or> c = CHR ''6'' \<or> c = CHR ''7'' \<or> c = CHR ''8'' \<or> c = CHR ''9''
   \<or> c = CHR ''A'' \<or> c = CHR ''B'' \<or> c = CHR ''C'' \<or> c = CHR ''D'' \<or> c = CHR ''E''
   \<or> c = CHR ''F''"
  by (auto simp: is_hex_digit_def hex_digits_def)

lemma char_of_hex_codes:
  "char_of (48::nat) = CHR ''0''" "char_of (49::nat) = CHR ''1''" "char_of (50::nat) = CHR ''2''"
  "char_of (51::nat) = CHR ''3''" "char_of (52::nat) = CHR ''4''" "char_of (53::nat) = CHR ''5''"
  "char_of (54::nat) = CHR ''6''" "char_of (55::nat) = CHR ''7''" "char_of (56::nat) = CHR ''8''"
  "char_of (57::nat) = CHR ''9''" "char_of (65::nat) = CHR ''A''" "char_of (66::nat) = CHR ''B''"
  "char_of (67::nat) = CHR ''C''" "char_of (68::nat) = CHR ''D''" "char_of (69::nat) = CHR ''E''"
  "char_of (70::nat) = CHR ''F''"
  by code_simp+

lemma code_hex_test:
  "((int (of_char c) \<ge> CHAR_0 \<and> int (of_char c) \<le> CHAR_9)
     \<or> (int (of_char c) \<ge> CHAR_A \<and> int (of_char c) \<le> CHAR_F)) = is_hex_digit c"
proof
  assume "is_hex_digit c"
  then show "(int (of_char c) \<ge> CHAR_0 \<and> int (of_char c) \<le> CHAR_9)
     \<or> (int (of_char c) \<ge> CHAR_A \<and> int (of_char c) \<le> CHAR_F)"
    unfolding is_hex_digit_cases
    by (auto simp: CHAR_0_def CHAR_9_def CHAR_A_def CHAR_F_def)
next
  assume a: "(int (of_char c) \<ge> CHAR_0 \<and> int (of_char c) \<le> CHAR_9)
     \<or> (int (of_char c) \<ge> CHAR_A \<and> int (of_char c) \<le> CHAR_F)"
  define n :: nat where "n = of_char c"
  have c: "c = char_of n" by (simp add: n_def)
  from a have "(48 \<le> n \<and> n \<le> 57) \<or> (65 \<le> n \<and> n \<le> 70)"
    unfolding n_def [symmetric] CHAR_0_def CHAR_9_def CHAR_A_def CHAR_F_def by simp
  then have "n = 48 \<or> n = 49 \<or> n = 50 \<or> n = 51 \<or> n = 52 \<or> n = 53 \<or> n = 54
      \<or> n = 55 \<or> n = 56 \<or> n = 57 \<or> n = 65 \<or> n = 66 \<or> n = 67 \<or> n = 68
      \<or> n = 69 \<or> n = 70"
    by arith
  then have "c = CHR ''0'' \<or> c = CHR ''1'' \<or> c = CHR ''2'' \<or> c = CHR ''3'' \<or> c = CHR ''4''
   \<or> c = CHR ''5'' \<or> c = CHR ''6'' \<or> c = CHR ''7'' \<or> c = CHR ''8'' \<or> c = CHR ''9''
   \<or> c = CHR ''A'' \<or> c = CHR ''B'' \<or> c = CHR ''C'' \<or> c = CHR ''D'' \<or> c = CHR ''E''
   \<or> c = CHR ''F''"
    unfolding c using char_of_hex_codes by metis
  then show "is_hex_digit c"
    unfolding is_hex_digit_cases .
qed


lemma hex_value_digits:
  "hex_value CHR ''0'' = 0" "hex_value CHR ''1'' = 1" "hex_value CHR ''2'' = 2"
  "hex_value CHR ''3'' = 3" "hex_value CHR ''4'' = 4" "hex_value CHR ''5'' = 5"
  "hex_value CHR ''6'' = 6" "hex_value CHR ''7'' = 7" "hex_value CHR ''8'' = 8"
  "hex_value CHR ''9'' = 9" "hex_value CHR ''A'' = 10" "hex_value CHR ''B'' = 11"
  "hex_value CHR ''C'' = 12" "hex_value CHR ''D'' = 13" "hex_value CHR ''E'' = 14"
  "hex_value CHR ''F'' = 15"
  by (simp_all add: hex_value_def hex_digits_def)

lemma code_digit_value:
  "is_hex_digit c \<Longrightarrow>
   (if int (of_char c) \<le> CHAR_9 then int (of_char c) - CHAR_0
    else (int (of_char c) - CHAR_A) + HEXVAL_A) = int (hex_value c)"
  unfolding is_hex_digit_cases
  by (elim disjE) (simp_all add: CHAR_0_def CHAR_9_def CHAR_A_def HEXVAL_A_def hex_value_digits)

lemma code_digit_le_9:
  "is_hex_digit c \<Longrightarrow> int (of_char c) \<le> CHAR_9 \<Longrightarrow> int (of_char c) - CHAR_0 = int (hex_value c)"
  using code_digit_value [of c] by simp

lemma code_digit_gt_9:
  "is_hex_digit c \<Longrightarrow> \<not> int (of_char c) \<le> CHAR_9 \<Longrightarrow>
   (int (of_char c) - CHAR_A) + HEXVAL_A = int (hex_value c)"
  using code_digit_value [of c] by simp

lemma char_at_in: "i < length s \<Longrightarrow> char_at s i = int (of_char (s ! i))"
  by (simp add: char_at_def)

lemma Pattern_loop_done: "\<not> i < len \<Longrightarrow> Pattern_loop aPattern len i this j = Inr this"
  by (subst Pattern_loop.simps) simp

lemma Pattern_loop_full:
  "Size this \<ge> of_nat MAX_PATTERN_LENGTH \<Longrightarrow> Pattern_loop aPattern len i this j = Inr this"
  by (subst Pattern_loop.simps) simp

lemma of_char_special:
  "(of_char c = (32::nat)) = (c = CHR '' '')"
  "(of_char c = (60::nat)) = (c = CHR ''<'')"
  "(of_char c = (62::nat)) = (c = CHR ''>'')"
  "(of_char c = (63::nat)) = (c = CHR ''?'')"
proof -
  have e: "char_of (32::nat) = CHR '' ''" "char_of (60::nat) = CHR ''<''"
    "char_of (62::nat) = CHR ''>''" "char_of (63::nat) = CHR ''?''"
    by code_simp+
  have r: "of_char c = (n::nat) \<Longrightarrow> c = char_of n" for n by auto
  show "(of_char c = (32::nat)) = (c = CHR '' '')" using r [of 32] e by auto
  show "(of_char c = (60::nat)) = (c = CHR ''<'')" using r [of 60] e by auto
  show "(of_char c = (62::nat)) = (c = CHR ''>'')" using r [of 62] e by auto
  show "(of_char c = (63::nat)) = (c = CHR ''?'')" using r [of 63] e by auto
qed

lemma Pattern_loop_skip:
  assumes "i < len" "len \<le> length aPattern" "\<not> Size this \<ge> of_nat MAX_PATTERN_LENGTH"
    and "is_skipped (aPattern ! i)"
  shows "Pattern_loop aPattern len i this j = Pattern_loop aPattern len (i + 1) this j"
  using assms
  by (subst Pattern_loop.simps) (auto simp: char_at_in is_skipped_def)

lemma Pattern_loop_invalid:
  assumes "i < len" "len \<le> length aPattern" "\<not> Size this \<ge> of_nat MAX_PATTERN_LENGTH"
    and "\<not> is_skipped (aPattern ! i)" "aPattern ! i \<noteq> CHR ''?''" "\<not> is_hex_digit (aPattern ! i)"
  shows "Pattern_loop aPattern len i this j = Inl Invalid_hexadecimal"
proof -
  have c: "char_at aPattern i = int (of_char (aPattern ! i))"
    using assms by (simp add: char_at_in)
  show ?thesis
    using assms(1,3,4,5,6)
    by (subst Pattern_loop.simps) (simp add: c is_skipped_def of_char_special code_hex_test)
qed

lemma Pattern_loop_wildcard:
  assumes "i < len" "len \<le> length aPattern" "\<not> Size this \<ge> of_nat MAX_PATTERN_LENGTH"
    and "aPattern ! i = CHR ''?''"
  shows "Pattern_loop aPattern len i this j =
     Pattern_loop aPattern len
       (if i + 1 < len \<and> aPattern ! (i + 1) = CHR ''?'' then i + 2 else i + 1)
       (this\<lparr>Bytes := (Bytes this)[j := wildcard_token], Size := Size this + 1\<rparr>) (j + 1)"
proof -
  have c: "char_at aPattern i = int (of_char (aPattern ! i))"
    using assms by (simp add: char_at_in)
  have d: "i + 1 < len \<Longrightarrow> char_at aPattern (i + 1) = int (of_char (aPattern ! (i + 1)))"
    using assms by (simp add: char_at_in)
  show ?thesis
    using assms(1,3,4) d
    by (subst Pattern_loop.simps)
       (auto simp: c is_skipped_def of_char_special wildcard_token_def Let_def)
qed

lemma code_digit_word:
  assumes "is_hex_digit c"
  shows "(if int (of_char c) \<le> CHAR_9
          then (v :: 8 word) + of_int ((int (of_char c) - CHAR_0) * p)
          else v + of_int (((int (of_char c) - CHAR_A) + HEXVAL_A) * p))
         = v + of_int (int (hex_value c) * p)"
proof (cases "int (of_char c) \<le> CHAR_9")
  case True
  show ?thesis
    by (simp only: True if_True code_digit_le_9 [OF assms True])
next
  case False
  show ?thesis
    by (simp only: False if_False code_digit_gt_9 [OF assms False])
qed

lemma Pattern_loop_hex:
  assumes "i < len" "len \<le> length aPattern" "\<not> Size this \<ge> of_nat MAX_PATTERN_LENGTH"
    and "char_at aPattern len = 0"
    and "is_hex_digit (aPattern ! i)"
  shows "Pattern_loop aPattern len i this j =
     (if i + 1 < len \<and> is_hex_digit (aPattern ! (i + 1))
      then Pattern_loop aPattern len (i + 2)
             (this\<lparr>Bytes := (Bytes this)
                      [j := byte_token (hex_value (aPattern ! i) * 16 + hex_value (aPattern ! (i + 1)))],
                    Size := Size this + 1\<rparr>) (j + 1)
      else Pattern_loop aPattern len (i + 1)
             (this\<lparr>Bytes := (Bytes this)[j := byte_token (hex_value (aPattern ! i))],
                    Size := Size this + 1\<rparr>) (j + 1))"
proof -
  let ?c = "aPattern ! i"
  let ?d = "aPattern ! (i + 1)"
  have c: "char_at aPattern i = int (of_char ?c)"
    using assms by (simp add: char_at_in)
  have ns: "int (of_char ?c) \<noteq> int (of_char CHR '' '')"
    "int (of_char ?c) \<noteq> int (of_char CHR ''<'')"
    "int (of_char ?c) \<noteq> int (of_char CHR ''>'')"
    "int (of_char ?c) \<noteq> int (of_char CHR ''?'')"
    using assms(5) unfolding is_hex_digit_cases by (elim disjE; simp)+
  have hexc: "(CHAR_0 \<le> int (of_char ?c) \<and> int (of_char ?c) \<le> CHAR_9)
      \<or> (CHAR_A \<le> int (of_char ?c) \<and> int (of_char ?c) \<le> CHAR_F)"
    using assms(5) code_hex_test [of ?c] by simp
  have la: "((i + 1 < len \<and> (CHAR_0 \<le> char_at aPattern (i + 1) \<and> char_at aPattern (i + 1) \<le> CHAR_9))
           \<or> (CHAR_A \<le> char_at aPattern (i + 1) \<and> char_at aPattern (i + 1) \<le> CHAR_F))
      = (i + 1 < len \<and> is_hex_digit ?d)"
  proof (cases "i + 1 < len")
    case True
    then have d: "char_at aPattern (i + 1) = int (of_char ?d)"
      using assms by (simp add: char_at_in)
    show ?thesis using True code_hex_test [of ?d] unfolding d by simp
  next
    case False
    with assms(1) have "i + 1 = len" by arith
    with assms(4) have "char_at aPattern (i + 1) = 0" by simp
    with False show ?thesis by (simp add: CHAR_A_def)
  qed
  have unfold: "Pattern_loop aPattern len i this j =
       (if i + 1 < len \<and> is_hex_digit ?d
        then
          (let val = (0 :: 8 word);
               val = (if int (of_char ?c) \<le> CHAR_9
                      then val + of_int ((int (of_char ?c) - CHAR_0) * HEXPOW_2)
                      else val + of_int (((int (of_char ?c) - CHAR_A) + HEXVAL_A) * HEXPOW_2));
               val = (if char_at aPattern (i + 1) \<le> CHAR_9
                      then val + of_int ((char_at aPattern (i + 1) - CHAR_0) * HEXPOW_1)
                      else val + of_int (((char_at aPattern (i + 1) - CHAR_A) + HEXVAL_A) * HEXPOW_1))
           in Pattern_loop aPattern len (i + 2)
                (this\<lparr>Bytes := (Bytes this)[j := \<lparr>IsWildcard = False, Value = val\<rparr>],
                       Size := Size this + 1\<rparr>) (j + 1))
        else
          (let val = (0 :: 8 word);
               val = (if int (of_char ?c) \<le> CHAR_9
                      then val + of_int ((int (of_char ?c) - CHAR_0) * HEXPOW_1)
                      else val + of_int (((int (of_char ?c) - CHAR_A) + HEXVAL_A) * HEXPOW_1))
           in Pattern_loop aPattern len (i + 1)
                (this\<lparr>Bytes := (Bytes this)[j := \<lparr>IsWildcard = False, Value = val\<rparr>],
                       Size := Size this + 1\<rparr>) (j + 1)))"
    apply (subst Pattern_loop.simps)
    apply (simp only: assms(1) not_not if_True if_False)
    apply (simp only: assms(3) if_False)
    apply (simp only: c ns if_False)
    apply (simp only: hexc if_True)
    apply (simp only: la not_True_eq_False if_False)
    done
  show ?thesis
  proof (cases "i + 1 < len \<and> is_hex_digit ?d")
    case True
    then have d: "char_at aPattern (i + 1) = int (of_char ?d)"
      using assms by (simp add: char_at_in)
    from True have hd: "is_hex_digit ?d" by simp
    show ?thesis
      unfolding unfold d
      by (simp only: True if_True Let_def code_digit_word [OF assms(5)] code_digit_word [OF hd])
         (simp add: byte_token_def HEXPOW_1_def HEXPOW_2_def)
  next
    case False
    show ?thesis
      unfolding unfold
      by (simp only: False if_False Let_def code_digit_word [OF assms(5)])
         (simp add: byte_token_def HEXPOW_1_def)
  qed
qed

lemma grammar_tokens_Nil: "grammar_tokens n [] = Inr []"
  by (cases n) simp_all

lemma grammar_tokens_skip:
  "is_skipped c \<Longrightarrow> grammar_tokens (Suc n) (c # cs) = grammar_tokens (Suc n) cs"
  by (cases cs) simp_all

lemma grammar_tokens_invalid:
  "\<not> is_skipped c \<Longrightarrow> c \<noteq> CHR ''?'' \<Longrightarrow> \<not> is_hex_digit c \<Longrightarrow>
   grammar_tokens (Suc n) (c # cs) = Inl Invalid_hexadecimal"
  by (cases cs) simp_all

lemma not_skipped_wildcard: "\<not> is_skipped CHR ''?''"
  by (simp add: is_skipped_def)

lemma hex_not_special: "is_hex_digit c \<Longrightarrow> \<not> is_skipped c \<and> c \<noteq> CHR ''?''"
  unfolding is_hex_digit_cases is_skipped_def by auto

lemma grammar_tokens_wildcard:
  "grammar_tokens (Suc n) (CHR ''?'' # cs) =
     token_cons wildcard_token
       (grammar_tokens n (if cs \<noteq> [] \<and> hd cs = CHR ''?'' then tl cs else cs))"
  by (cases cs) (simp_all add: not_skipped_wildcard grammar_tokens_Nil token_cons_def)

lemma grammar_tokens_hex:
  "is_hex_digit c \<Longrightarrow>
   grammar_tokens (Suc n) (c # cs) =
     (if cs \<noteq> [] \<and> is_hex_digit (hd cs)
      then token_cons (byte_token (hex_value c * 16 + hex_value (hd cs))) (grammar_tokens n (tl cs))
      else token_cons (byte_token (hex_value c)) (grammar_tokens n cs))"
  using hex_not_special [of c]
  by (cases cs) (simp_all add: grammar_tokens_Nil token_cons_def)

lemma small_not_full:
  "k < MAX_PATTERN_LENGTH \<Longrightarrow> \<not> (of_nat k :: 64 word) \<ge> of_nat MAX_PATTERN_LENGTH"
  by (simp add: MAX_PATTERN_LENGTH_def word_le_nat_alt unat_of_nat)

lemma state_push:
  "length pre = k \<Longrightarrow> k < MAX_PATTERN_LENGTH \<Longrightarrow>
   \<lparr>Bytes = pre @ replicate (MAX_PATTERN_LENGTH - k) Byte_default, Size = of_nat k\<rparr>
     \<lparr>Bytes := (pre @ replicate (MAX_PATTERN_LENGTH - k) Byte_default)[k := b],
      Size := of_nat k + 1\<rparr>
   = \<lparr>Bytes = (pre @ [b]) @ replicate (MAX_PATTERN_LENGTH - (k + 1)) Byte_default,
      Size = of_nat (k + 1)\<rparr>"
proof -
  assume a: "length pre = k" "k < MAX_PATTERN_LENGTH"
  then obtain m where m: "MAX_PATTERN_LENGTH - k = Suc m" by (cases "MAX_PATTERN_LENGTH - k") auto
  then have m': "MAX_PATTERN_LENGTH - (k + 1) = m" by simp
  show ?thesis
    unfolding m m' using a(1) by (simp add: list_update_append)
qed

lemma drop_Cons_nth: "i < length t \<Longrightarrow> drop i t = t ! i # drop (i + 1) t"
  by (simp add: Cons_nth_drop_Suc)

lemma token_cons_case:
  "(case token_cons b r of Inl e \<Rightarrow> Inl e | Inr ts \<Rightarrow> Inr (f ts))
     = (case r of Inl e \<Rightarrow> Inl e | Inr ts \<Rightarrow> Inr (f (b # ts)))"
  by (simp add: token_cons_def split: sum.splits)


lemma drop_lookahead:
  assumes "length t = len" "i < len"
  shows "drop (i + 1) t \<noteq> [] \<longleftrightarrow> i + 1 < len"
    and "i + 1 < len \<Longrightarrow> hd (drop (i + 1) t) = t ! (i + 1)"
    and "tl (drop (i + 1) t) = drop (i + 2) t"
proof -
  show "drop (i + 1) t \<noteq> [] \<longleftrightarrow> i + 1 < len"
    using assms(1) by (simp add: not_le del: drop_Suc_Cons)
  show "i + 1 < len \<Longrightarrow> hd (drop (i + 1) t) = t ! (i + 1)"
    using assms(1) by (simp add: hd_drop_conv_nth)
  have "tl (drop (Suc i) t) = drop (Suc (Suc i)) t"
    by (simp add: drop_Suc tl_drop)
  then show "tl (drop (i + 1) t) = drop (i + 2) t" by simp
qed

lemma Pattern_loop_refines:
  assumes len: "len \<le> length aPattern" and z: "char_at aPattern len = 0"
  shows "length pre = k \<Longrightarrow> k \<le> MAX_PATTERN_LENGTH \<Longrightarrow> i \<le> len \<Longrightarrow>
     Pattern_loop aPattern len i
       \<lparr>Bytes = pre @ replicate (MAX_PATTERN_LENGTH - k) Byte_default, Size = of_nat k\<rparr> k
     = (case grammar_tokens (MAX_PATTERN_LENGTH - k) (drop i (take len aPattern)) of
          Inl e \<Rightarrow> Inl e
        | Inr ts \<Rightarrow>
            Inr \<lparr>Bytes = pre @ ts @ replicate (MAX_PATTERN_LENGTH - k - length ts) Byte_default,
                 Size = of_nat (k + length ts)\<rparr>)"
proof (induction "len - i" arbitrary: i pre k rule: less_induct)
  case less
  let ?t = "take len aPattern"
  let ?st = "\<lparr>Bytes = pre @ replicate (MAX_PATTERN_LENGTH - k) Byte_default, Size = of_nat k\<rparr>"
  have lt: "length ?t = len" using len by simp
  show ?case
  proof (cases "i < len")
    case False
    then have "drop i ?t = []" using lt by simp
    then show ?thesis using False by (simp add: Pattern_loop_done grammar_tokens_Nil)
  next
    case True
    have ti: "?t ! i = aPattern ! i" using True by simp
    have dr: "drop i ?t = aPattern ! i # drop (i + 1) ?t"
      using drop_Cons_nth [of i ?t] True lt ti by simp
    note la = drop_lookahead [OF lt True]
    have t1: "i + 1 < len \<Longrightarrow> ?t ! (i + 1) = aPattern ! (i + 1)" by simp
    show ?thesis
    proof (cases "k = MAX_PATTERN_LENGTH")
      case full: True
      have "Size ?st \<ge> of_nat MAX_PATTERN_LENGTH" using full by simp
      then have "Pattern_loop aPattern len i ?st k = Inr ?st" by (rule Pattern_loop_full)
      then show ?thesis using full by simp
    next
      case False
      with less.prems have k: "k < MAX_PATTERN_LENGTH" by simp
      have nf: "\<not> Size ?st \<ge> of_nat MAX_PATTERN_LENGTH"
        using small_not_full [OF k] by simp
      obtain n where n: "MAX_PATTERN_LENGTH - k = Suc n"
        using k by (cases "MAX_PATTERN_LENGTH - k") auto
      then have n': "MAX_PATTERN_LENGTH - (k + 1) = n" by simp
      have push: "?st\<lparr>Bytes := (Bytes ?st)[k := b], Size := Size ?st + 1\<rparr>
          = \<lparr>Bytes = (pre @ [b]) @ replicate (MAX_PATTERN_LENGTH - (k + 1)) Byte_default,
             Size = of_nat (k + 1)\<rparr>" for b
        using state_push [OF less.prems(1) k, of b] by simp
      have IH: "Pattern_loop aPattern len i'
            \<lparr>Bytes = (pre @ [b]) @ replicate (MAX_PATTERN_LENGTH - (k + 1)) Byte_default,
               Size = of_nat (k + 1)\<rparr> (k + 1)
          = (case grammar_tokens n (drop i' ?t) of
               Inl e \<Rightarrow> Inl e
             | Inr ts \<Rightarrow>
                 Inr \<lparr>Bytes = pre @ (b # ts)
                        @ replicate (MAX_PATTERN_LENGTH - k - length (b # ts)) Byte_default,
                      Size = of_nat (k + length (b # ts))\<rparr>)"
        if "i < i'" "i' \<le> len" for i' b
      proof -
        have m: "len - i' < len - i" using that True by arith
        have l: "length (pre @ [b]) = k + 1" using less.prems(1) by simp
        have kk: "k + 1 \<le> MAX_PATTERN_LENGTH" using k by simp
        have n'': "MAX_PATTERN_LENGTH - Suc k = n" using n by simp
        have a: "n - length ts = MAX_PATTERN_LENGTH - k - length (b # ts)" for ts :: "Byte list"
          using n by simp
        have a': "n - length ts = MAX_PATTERN_LENGTH - Suc (k + length ts)" for ts :: "Byte list"
          using n by arith
        show ?thesis
          using less.hyps [OF m l kk that(2)]
          by (simp add: n'' a' [symmetric] split: sum.splits)
      qed
      show ?thesis
      proof (cases "is_skipped (aPattern ! i)")
        case sk: True
        have m: "len - (i + 1) < len - i" using True by arith
        have "Pattern_loop aPattern len i ?st k = Pattern_loop aPattern len (i + 1) ?st k"
          by (rule Pattern_loop_skip [OF True len nf sk])
        also have "\<dots> = (case grammar_tokens (MAX_PATTERN_LENGTH - k) (drop (i + 1) ?t) of
            Inl e \<Rightarrow> Inl e
          | Inr ts \<Rightarrow>
              Inr \<lparr>Bytes = pre @ ts @ replicate (MAX_PATTERN_LENGTH - k - length ts) Byte_default,
                   Size = of_nat (k + length ts)\<rparr>)"
          using less.hyps [OF m less.prems(1,2)] True by simp
        also have "grammar_tokens (MAX_PATTERN_LENGTH - k) (drop (i + 1) ?t)
            = grammar_tokens (MAX_PATTERN_LENGTH - k) (drop i ?t)"
          unfolding dr n by (simp add: grammar_tokens_skip [OF sk])
        finally show ?thesis .
      next
        case nsk: False
        show ?thesis
        proof (cases "aPattern ! i = CHR ''?''")
          case w: True
          let ?i' = "if i + 1 < len \<and> aPattern ! (i + 1) = CHR ''?'' then i + 2 else i + 1"
          have i': "i < ?i'" "?i' \<le> len" using True by auto
          have rest: "(if drop (i + 1) ?t \<noteq> [] \<and> hd (drop (i + 1) ?t) = CHR ''?''
                       then tl (drop (i + 1) ?t) else drop (i + 1) ?t) = drop ?i' ?t"
            using la t1 by auto
          have "Pattern_loop aPattern len i ?st k
              = Pattern_loop aPattern len ?i'
                  (?st\<lparr>Bytes := (Bytes ?st)[k := wildcard_token], Size := Size ?st + 1\<rparr>) (k + 1)"
            by (rule Pattern_loop_wildcard [OF True len nf w])
          also have "\<dots> = (case grammar_tokens n (drop ?i' ?t) of
               Inl e \<Rightarrow> Inl e
             | Inr ts \<Rightarrow>
                 Inr \<lparr>Bytes = pre @ (wildcard_token # ts)
                        @ replicate (MAX_PATTERN_LENGTH - k - length (wildcard_token # ts)) Byte_default,
                      Size = of_nat (k + length (wildcard_token # ts))\<rparr>)"
            unfolding push by (rule IH [OF i'])
          also have "\<dots> = (case grammar_tokens (MAX_PATTERN_LENGTH - k) (drop i ?t) of
            Inl e \<Rightarrow> Inl e
          | Inr ts \<Rightarrow>
              Inr \<lparr>Bytes = pre @ ts @ replicate (MAX_PATTERN_LENGTH - k - length ts) Byte_default,
                   Size = of_nat (k + length ts)\<rparr>)"
            unfolding dr n w grammar_tokens_wildcard rest token_cons_case ..
          finally show ?thesis .
        next
          case nw: False
          show ?thesis
          proof (cases "is_hex_digit (aPattern ! i)")
            case hx: True
            let ?c = "aPattern ! i"
            let ?d = "aPattern ! (i + 1)"
            show ?thesis
            proof (cases "i + 1 < len \<and> is_hex_digit ?d")
              case two: True
              have i': "i < i + 2" "i + 2 \<le> len" using two by auto
              have g: "grammar_tokens (Suc n) (?c # drop (i + 1) ?t)
                  = token_cons (byte_token (hex_value ?c * 16 + hex_value ?d))
                      (grammar_tokens n (drop (i + 2) ?t))"
                using two la t1 by (simp add: grammar_tokens_hex [OF hx])
              have "Pattern_loop aPattern len i ?st k
                  = Pattern_loop aPattern len (i + 2)
                      (?st\<lparr>Bytes := (Bytes ?st)
                               [k := byte_token (hex_value ?c * 16 + hex_value ?d)],
                            Size := Size ?st + 1\<rparr>) (k + 1)"
                by (rule trans [OF Pattern_loop_hex [OF True len nf z hx] if_P [OF two]])
              also have "\<dots> = (case grammar_tokens n (drop (i + 2) ?t) of
                   Inl e \<Rightarrow> Inl e
                 | Inr ts \<Rightarrow>
                     Inr \<lparr>Bytes = pre @ (byte_token (hex_value ?c * 16 + hex_value ?d) # ts)
                            @ replicate (MAX_PATTERN_LENGTH - k
                                - length (byte_token (hex_value ?c * 16 + hex_value ?d) # ts))
                                Byte_default,
                          Size = of_nat (k
                                + length (byte_token (hex_value ?c * 16 + hex_value ?d) # ts))\<rparr>)"
                unfolding push by (rule IH [OF i'])
              also have "\<dots> = (case grammar_tokens (MAX_PATTERN_LENGTH - k) (drop i ?t) of
                  Inl e \<Rightarrow> Inl e
                | Inr ts \<Rightarrow>
                    Inr \<lparr>Bytes = pre @ ts
                           @ replicate (MAX_PATTERN_LENGTH - k - length ts) Byte_default,
                         Size = of_nat (k + length ts)\<rparr>)"
                unfolding dr n g token_cons_case ..
              finally show ?thesis .
            next
              case one: False
              have i': "i < i + 1" "i + 1 \<le> len" using True by auto
              have g: "grammar_tokens (Suc n) (?c # drop (i + 1) ?t)
                  = token_cons (byte_token (hex_value ?c)) (grammar_tokens n (drop (i + 1) ?t))"
                using one la t1 by (auto simp: grammar_tokens_hex [OF hx])
              have "Pattern_loop aPattern len i ?st k
                  = Pattern_loop aPattern len (i + 1)
                      (?st\<lparr>Bytes := (Bytes ?st)[k := byte_token (hex_value ?c)],
                            Size := Size ?st + 1\<rparr>) (k + 1)"
                by (rule trans [OF Pattern_loop_hex [OF True len nf z hx] if_not_P [OF one]])
              also have "\<dots> = (case grammar_tokens n (drop (i + 1) ?t) of
                   Inl e \<Rightarrow> Inl e
                 | Inr ts \<Rightarrow>
                     Inr \<lparr>Bytes = pre @ (byte_token (hex_value ?c) # ts)
                            @ replicate (MAX_PATTERN_LENGTH - k
                                - length (byte_token (hex_value ?c) # ts)) Byte_default,
                          Size = of_nat (k + length (byte_token (hex_value ?c) # ts))\<rparr>)"
                unfolding push by (rule IH [OF i'])
              also have "\<dots> = (case grammar_tokens (MAX_PATTERN_LENGTH - k) (drop i ?t) of
                  Inl e \<Rightarrow> Inl e
                | Inr ts \<Rightarrow>
                    Inr \<lparr>Bytes = pre @ ts
                           @ replicate (MAX_PATTERN_LENGTH - k - length ts) Byte_default,
                         Size = of_nat (k + length ts)\<rparr>)"
                unfolding dr n g token_cons_case ..
              finally show ?thesis .
            qed
          next
            case nhx: False
            have "Pattern_loop aPattern len i ?st k = Inl Invalid_hexadecimal"
              by (rule Pattern_loop_invalid [OF True len nf nsk nw nhx])
            moreover have "grammar_tokens (MAX_PATTERN_LENGTH - k) (drop i ?t)
                = Inl Invalid_hexadecimal"
              unfolding dr n by (rule grammar_tokens_invalid [OF nsk nw nhx])
            ultimately show ?thesis by simp
          qed
        qed
      qed
    qed
  qed
qed

lemma of_char_eq_0: "(of_char c = (0::nat)) = (c = CHR 0x00)"
proof -
  have e: "char_of (0::nat) = CHR 0x00" by code_simp
  have r: "of_char c = (0::nat) \<Longrightarrow> c = char_of (0::nat)" by (metis char_of_char)
  show ?thesis using r e by auto
qed

lemma char_at_eq_0: "(char_at s i = 0) = (i < length s \<longrightarrow> s ! i = CHR 0x00)"
  by (simp add: char_at_def of_char_eq_0)

lemma strlen_from_eq:
  "len \<le> length s \<Longrightarrow>
   strlen_from s len = len + length (takeWhile (\<lambda>c. c \<noteq> CHR 0x00) (drop len s))"
proof (induction s len rule: strlen_from.induct)
  case (1 s len)
  show ?case
  proof (cases "char_at s len \<noteq> 0")
    case True
    then have lt: "len < length s" and nz: "s ! len \<noteq> CHR 0x00"
      by (auto simp: char_at_eq_0)
    have d: "drop len s = s ! len # drop (len + 1) s"
      using lt by (simp add: Cons_nth_drop_Suc)
    have "strlen_from s len = strlen_from s (len + 1)"
      using True by (subst strlen_from.simps) simp
    also have "\<dots> = (len + 1) + length (takeWhile (\<lambda>c. c \<noteq> CHR 0x00) (drop (len + 1) s))"
      using "1.IH" [OF True] lt by simp
    also have "\<dots> = len + length (takeWhile (\<lambda>c. c \<noteq> CHR 0x00) (drop len s))"
      unfolding d using nz by simp
    finally show ?thesis .
  next
    case False
    then have z: "len < length s \<longrightarrow> s ! len = CHR 0x00" by (simp add: char_at_eq_0)
    have "takeWhile (\<lambda>c. c \<noteq> CHR 0x00) (drop len s) = []"
    proof (cases "len < length s")
      case True
      then have "drop len s = s ! len # drop (len + 1) s" by (simp add: Cons_nth_drop_Suc)
      with z True show ?thesis by simp
    next
      case False
      then show ?thesis by simp
    qed
    moreover have "strlen_from s len = len"
      using False by (subst strlen_from.simps) simp
    ultimately show ?thesis by simp
  qed
qed

lemma strlen_from_c_string: "strlen_from s 0 = length (c_string s)"
  using strlen_from_eq [of 0 s] by (simp add: c_string_def)

lemma c_string_take: "take (length (c_string s)) s = c_string s"
  unfolding c_string_def by (induction s) auto

lemma c_string_length_le: "length (c_string s) \<le> length s"
  by (simp add: c_string_def length_takeWhile_le)

lemma c_string_end: "char_at s (length (c_string s)) = 0"
  unfolding char_at_eq_0 c_string_def
  using nth_length_takeWhile [of "\<lambda>c. c \<noteq> CHR 0x00" s] by auto

lemma Pattern_ctor_refines: "Pattern_ctor aPattern = compile_by_grammar aPattern"
proof -
  let ?len = "length (c_string aPattern)"
  have "Pattern_loop aPattern ?len 0
       \<lparr>Bytes = [] @ replicate (MAX_PATTERN_LENGTH - 0) Byte_default, Size = of_nat 0\<rparr> 0
     = (case grammar_tokens (MAX_PATTERN_LENGTH - 0) (drop 0 (take ?len aPattern)) of
          Inl e \<Rightarrow> Inl e
        | Inr ts \<Rightarrow>
            Inr \<lparr>Bytes = [] @ ts @ replicate (MAX_PATTERN_LENGTH - 0 - length ts) Byte_default,
                 Size = of_nat (0 + length ts)\<rparr>)"
    by (rule Pattern_loop_refines [OF c_string_length_le c_string_end]) simp_all
  then show ?thesis
    by (simp add: Pattern_ctor_def compile_by_grammar_def strlen_from_c_string c_string_take
          Pattern_default_def Pattern_of_tokens_def split: sum.splits)
qed

lemma token_cons_Inr:
  "token_cons b r = Inr ts \<Longrightarrow> \<exists>ts'. r = Inr ts' \<and> ts = b # ts'"
  by (auto simp: token_cons_def split: sum.splits)

lemma grammar_tokens_length: "grammar_tokens n cs = Inr ts \<Longrightarrow> length ts \<le> n"
proof (induction n cs arbitrary: ts rule: grammar_tokens.induct)
  case (1 cs)
  then show ?case by simp
next
  case (2 n)
  then show ?case by simp
next
  case (3 n c)
  then show ?case by (auto split: if_splits)
next
  case (4 n c d ds)
  then show ?case
    by (fastforce split: if_splits dest!: token_cons_Inr)
qed

lemma token_cons_simps:
  "token_cons b (Inr ts) = Inr (b # ts)" "token_cons b (Inl e) = Inl e"
  by (simp_all add: token_cons_def)

lemma grammar_tokens_truncated:
  "grammar_tokens n t = Inr ts \<Longrightarrow> length ts = n \<Longrightarrow>
   e = [] \<or> (\<not> is_hex_digit (hd e) \<and> hd e \<noteq> CHR ''?'') \<Longrightarrow>
   grammar_tokens n (t @ e) = Inr ts"
proof (induction n t arbitrary: ts rule: grammar_tokens.induct)
  case (1 cs)
  then show ?case by simp
next
  case (2 n)
  then show ?case by simp
next
  case (3 n c)
  have z: "n = 0" using 3 by (auto split: if_splits)
  show ?case
  proof (cases "is_skipped c")
    case True
    with 3 show ?thesis by simp
  next
    case nsk: False
    show ?thesis
    proof (cases "c = CHR ''?''")
      case True
      with 3 nsk z show ?thesis
        by (auto simp: grammar_tokens_wildcard token_cons_simps)
    next
      case nw: False
      show ?thesis
      proof (cases "is_hex_digit c")
        case True
        with 3 nsk nw z show ?thesis
          by (auto simp: grammar_tokens_hex token_cons_simps)
      next
        case False
        with 3 nsk nw show ?thesis by simp
      qed
    qed
  qed
next
  case (4 n c d ds)
  show ?case
  proof (cases "is_skipped c")
    case True
    with 4 show ?thesis by simp
  next
    case nsk: False
    show ?thesis
    proof (cases "c = CHR ''?''")
      case w: True
      show ?thesis
      proof (cases "d = CHR ''?''")
        case True
        with "4.prems" nsk w obtain ts' where
          t: "grammar_tokens n ds = Inr ts'" "ts = wildcard_token # ts'"
          by (auto dest!: token_cons_Inr)
        with "4.prems" have "length ts' = n" by simp
        from "4.IH"(2) [OF nsk w True t(1) this "4.prems"(3)] t nsk w True
        show ?thesis by (simp add: token_cons_simps)
      next
        case False
        with "4.prems" nsk w obtain ts' where
          t: "grammar_tokens n (d # ds) = Inr ts'" "ts = wildcard_token # ts'"
          by (auto dest!: token_cons_Inr)
        with "4.prems" have "length ts' = n" by simp
        from "4.IH"(3) [OF nsk w False t(1) this "4.prems"(3)] t nsk w False
        show ?thesis by (simp add: token_cons_simps)
      qed
    next
      case nw: False
      show ?thesis
      proof (cases "is_hex_digit c")
        case hx: True
        show ?thesis
        proof (cases "is_hex_digit d")
          case True
          with "4.prems" nsk nw hx obtain ts' where
            t: "grammar_tokens n ds = Inr ts'"
               "ts = byte_token (hex_value c * 16 + hex_value d) # ts'"
            by (auto dest!: token_cons_Inr)
          with "4.prems" have "length ts' = n" by simp
          from "4.IH"(4) [OF nsk nw hx True t(1) this "4.prems"(3)] t nsk nw hx True
          show ?thesis by (simp add: token_cons_simps)
        next
          case False
          with "4.prems" nsk nw hx obtain ts' where
            t: "grammar_tokens n (d # ds) = Inr ts'" "ts = byte_token (hex_value c) # ts'"
            by (auto dest!: token_cons_Inr)
          with "4.prems" have "length ts' = n" by simp
          from "4.IH"(5) [OF nsk nw hx False t(1) this "4.prems"(3)] t nsk nw hx False
          show ?thesis by (simp add: token_cons_simps)
        qed
      next
        case False
        with "4.prems" nsk nw show ?thesis by simp
      qed
    qed
  qed
qed

lemma c_string_append:
  "c_string (t @ u) = c_string t @ (if CHR 0x00 \<in> set t then [] else c_string u)"
  unfolding c_string_def by (induction t) auto

lemma c_string_Cons:
  "c_string (c # cs) = (if c = CHR 0x00 then [] else c # c_string cs)"
  by (simp add: c_string_def)

lemma Pattern_of_tokens_Size:
  "length ts \<le> MAX_PATTERN_LENGTH \<Longrightarrow> unat (Size (Pattern_of_tokens ts)) = length ts"
  by (simp add: Pattern_of_tokens_def MAX_PATTERN_LENGTH_def unat_of_nat)

lemma Pattern_of_tokens_wf:
  "length ts \<le> MAX_PATTERN_LENGTH \<Longrightarrow> Pattern_wf (Pattern_of_tokens ts)"
  using Pattern_of_tokens_Size [of ts]
  by (simp add: Pattern_wf_def) (simp add: Pattern_of_tokens_def)

lemma Pattern_ctor_Inr:
  "Pattern_ctor text = Inr p \<Longrightarrow>
   \<exists>ts. grammar_tokens MAX_PATTERN_LENGTH (c_string text) = Inr ts
      \<and> p = Pattern_of_tokens ts \<and> length ts \<le> MAX_PATTERN_LENGTH"
  unfolding Pattern_ctor_refines compile_by_grammar_def
  by (auto split: sum.splits dest: grammar_tokens_length)

lemma grammar_tokens_wildcards:
  "grammar_tokens n (replicate (2 * n) CHR ''?'' @ e) = Inr (replicate n wildcard_token)"
proof (induction n)
  case 0
  show ?case by simp
next
  case (Suc n)
  have "replicate (2 * Suc n) CHR ''?'' @ e
      = CHR ''?'' # CHR ''?'' # (replicate (2 * n) CHR ''?'' @ e)" by simp
  then show ?case
    using Suc by (simp add: not_skipped_wildcard token_cons_simps)
qed

lemma c_string_wildcards:
  "c_string (replicate m CHR ''?'') = replicate m CHR ''?''"
  by (simp add: c_string_def)

lemma Pattern_ctor_wildcards:
  "Pattern_ctor (replicate 256 CHR ''?'') = Inr (Pattern_of_tokens (replicate 128 wildcard_token))"
  using grammar_tokens_wildcards [of 128 "[]"]
  by (simp add: Pattern_ctor_refines compile_by_grammar_def c_string_wildcards
        MAX_PATTERN_LENGTH_def)

text \<open>
  C8. Every Pattern that the constructor builds has a \<^verbatim>\<open>Size\<close> of at most
  \<^verbatim>\<open>MAX_PATTERN_LENGTH\<close> (and \<^verbatim>\<open>MAX_PATTERN_LENGTH\<close> entries). Once \<^verbatim>\<open>Size\<close> has
  reached the capacity the loop returns the pattern as it is, whatever the text still
  holds; so a text that compiles to a full pattern compiles to the same pattern with
  any further characters after it (the first of them not one that would extend the
  last token of the text: not a hex digit and not \<^verbatim>\<open>?\<close>), valid or not, without an
  error.
\<close>

theorem compiled_Size_bounded:
  "(Pattern_ctor text = Inr p \<longrightarrow> unat (Size p) \<le> MAX_PATTERN_LENGTH \<and> Pattern_wf p)
   \<and> (Pattern_ctor text = Inr p \<and> unat (Size p) = MAX_PATTERN_LENGTH
        \<and> \<not> is_hex_digit c \<and> c \<noteq> CHR ''?'' \<longrightarrow>
          Pattern_ctor (text @ c # extra) = Inr p)
   \<and> (Size this \<ge> of_nat MAX_PATTERN_LENGTH \<longrightarrow>
          Pattern_loop aPattern len i this j = Inr this)"
proof (intro conjI impI)
  assume "Pattern_ctor text = Inr p"
  from Pattern_ctor_Inr [OF this] obtain ts where
    ts: "p = Pattern_of_tokens ts" "length ts \<le> MAX_PATTERN_LENGTH" by blast
  show "unat (Size p) \<le> MAX_PATTERN_LENGTH"
    using ts Pattern_of_tokens_Size [of ts] by simp
  show "Pattern_wf p" using ts Pattern_of_tokens_wf by simp
next
  assume a: "Pattern_ctor text = Inr p \<and> unat (Size p) = MAX_PATTERN_LENGTH
        \<and> \<not> is_hex_digit c \<and> c \<noteq> CHR ''?''"
  from Pattern_ctor_Inr [of "text" p] a obtain ts where
    ts: "grammar_tokens MAX_PATTERN_LENGTH (c_string text) = Inr ts"
      "p = Pattern_of_tokens ts" "length ts \<le> MAX_PATTERN_LENGTH" by blast
  have full: "length ts = MAX_PATTERN_LENGTH"
    using a ts Pattern_of_tokens_Size [of ts] by simp
  let ?e = "if CHR 0x00 \<in> set text then [] else c_string (c # extra)"
  have e: "?e = [] \<or> (\<not> is_hex_digit (hd ?e) \<and> hd ?e \<noteq> CHR ''?'')"
    using a by (simp add: c_string_Cons)
  have "grammar_tokens MAX_PATTERN_LENGTH (c_string (text @ c # extra)) = Inr ts"
    unfolding c_string_append by (rule grammar_tokens_truncated [OF ts(1) full e])
  then show "Pattern_ctor (text @ c # extra) = Inr p"
    by (simp add: Pattern_ctor_refines compile_by_grammar_def ts(2))
next
  assume "Size this \<ge> of_nat MAX_PATTERN_LENGTH"
  then show "Pattern_loop aPattern len i this j = Inr this" by (rule Pattern_loop_full)
qed

theorem compiled_Size_bounded_witness:
  "Pattern_ctor (replicate 256 CHR ''?'') = Inr (Pattern_of_tokens (replicate 128 wildcard_token))
   \<and> unat (Size (Pattern_of_tokens (replicate 128 wildcard_token))) = MAX_PATTERN_LENGTH
   \<and> Pattern_wf (Pattern_of_tokens (replicate 128 wildcard_token))
   \<and> \<not> is_hex_digit CHR ''z'' \<and> CHR ''z'' \<noteq> CHR ''?''
   \<and> Pattern_ctor (replicate 256 CHR ''?'' @ ''zz'')
       = Inr (Pattern_of_tokens (replicate 128 wildcard_token))
   \<and> Size (Pattern_of_tokens (replicate 128 wildcard_token)) \<ge> of_nat MAX_PATTERN_LENGTH
   \<and> Pattern_loop ''zz'' 2 0 (Pattern_of_tokens (replicate 128 wildcard_token)) 128
       = Inr (Pattern_of_tokens (replicate 128 wildcard_token))"
proof -
  let ?p = "Pattern_of_tokens (replicate 128 wildcard_token)"
  have c: "Pattern_ctor (replicate 256 CHR ''?'') = Inr ?p" by (rule Pattern_ctor_wildcards)
  have s: "unat (Size ?p) = MAX_PATTERN_LENGTH"
    by (simp add: Pattern_of_tokens_Size MAX_PATTERN_LENGTH_def)
  have z: "\<not> is_hex_digit CHR ''z''" "CHR ''z'' \<noteq> CHR ''?''"
    by (simp_all add: is_hex_digit_cases)
  have f: "Size ?p \<ge> of_nat MAX_PATTERN_LENGTH"
    by (simp add: Pattern_of_tokens_def MAX_PATTERN_LENGTH_def)
  note t = compiled_Size_bounded
    [of "replicate 256 CHR ''?''" ?p "CHR ''z''" "''z''" ?p "''zz''" 2 0 128]
  from t c have 1: "Pattern_wf ?p" by blast
  from t c s z have 2: "Pattern_ctor (replicate 256 CHR ''?'' @ CHR ''z'' # ''z'') = Inr ?p"
    by blast
  from t f have 3: "Pattern_loop ''zz'' 2 0 ?p 128 = Inr ?p" by blast
  show ?thesis using c s z f 1 2 3 by simp
qed

lemma grammar_tokens_fails:
  "grammar_tokens n pre = Inr ts \<Longrightarrow> length ts < n \<Longrightarrow> \<not> is_pattern_char c \<Longrightarrow>
   grammar_tokens n (pre @ c # post) = Inl Invalid_hexadecimal"
proof (induction n pre arbitrary: ts rule: grammar_tokens.induct)
  case (1 cs)
  then show ?case by simp
next
  case (2 n)
  then show ?case by (simp add: grammar_tokens_invalid is_pattern_char_def)
next
  case (3 n x)
  from "3.prems"(3) have c: "\<not> is_skipped c" "c \<noteq> CHR ''?''" "\<not> is_hex_digit c"
    by (simp_all add: is_pattern_char_def)
  have inv: "grammar_tokens (Suc m) (c # post) = Inl Invalid_hexadecimal" for m
    by (rule grammar_tokens_invalid [OF c])
  show ?case
  proof (cases "is_skipped x")
    case True
    then show ?thesis by (simp add: inv)
  next
    case nsk: False
    show ?thesis
    proof (cases "x = CHR ''?''")
      case True
      with "3.prems" nsk obtain m where "n = Suc m" by (cases n) auto
      with True nsk c show ?thesis by (simp add: inv token_cons_simps)
    next
      case nw: False
      show ?thesis
      proof (cases "is_hex_digit x")
        case True
        with "3.prems" nsk nw obtain m where "n = Suc m" by (cases n) auto
        with True nsk nw c show ?thesis by (simp add: inv token_cons_simps)
      next
        case False
        with "3.prems" nsk nw show ?thesis by simp
      qed
    qed
  qed
next
  case (4 n x d ds)
  show ?case
  proof (cases "is_skipped x")
    case True
    with 4 show ?thesis by simp
  next
    case nsk: False
    show ?thesis
    proof (cases "x = CHR ''?''")
      case w: True
      show ?thesis
      proof (cases "d = CHR ''?''")
        case True
        with "4.prems" nsk w obtain ts' where
          t: "grammar_tokens n ds = Inr ts'" "ts = wildcard_token # ts'"
          by (auto dest!: token_cons_Inr)
        with "4.prems" have "length ts' < n" by simp
        from "4.IH"(2) [OF nsk w True t(1) this "4.prems"(3)] nsk w True
        show ?thesis by (simp add: token_cons_simps)
      next
        case False
        with "4.prems" nsk w obtain ts' where
          t: "grammar_tokens n (d # ds) = Inr ts'" "ts = wildcard_token # ts'"
          by (auto dest!: token_cons_Inr)
        with "4.prems" have "length ts' < n" by simp
        from "4.IH"(3) [OF nsk w False t(1) this "4.prems"(3)] nsk w False
        show ?thesis by (simp add: token_cons_simps)
      qed
    next
      case nw: False
      show ?thesis
      proof (cases "is_hex_digit x")
        case hx: True
        show ?thesis
        proof (cases "is_hex_digit d")
          case True
          with "4.prems" nsk nw hx obtain ts' where
            t: "grammar_tokens n ds = Inr ts'"
               "ts = byte_token (hex_value x * 16 + hex_value d) # ts'"
            by (auto dest!: token_cons_Inr)
          with "4.prems" have "length ts' < n" by simp
          from "4.IH"(4) [OF nsk nw hx True t(1) this "4.prems"(3)] nsk nw hx True
          show ?thesis by (simp add: token_cons_simps)
        next
          case False
          with "4.prems" nsk nw hx obtain ts' where
            t: "grammar_tokens n (d # ds) = Inr ts'" "ts = byte_token (hex_value x) # ts'"
            by (auto dest!: token_cons_Inr)
          with "4.prems" have "length ts' < n" by simp
          from "4.IH"(5) [OF nsk nw hx False t(1) this "4.prems"(3)] nsk nw hx False
          show ?thesis by (simp add: token_cons_simps)
        qed
      next
        case False
        with "4.prems" nsk nw show ?thesis by simp
      qed
    qed
  qed
qed

lemma token_cons_ex: "\<exists>ts. r = Inr ts \<Longrightarrow> \<exists>ts. token_cons b r = Inr ts"
  by (auto simp: token_cons_simps)

lemma grammar_tokens_succeeds:
  "\<forall>x \<in> set t. is_pattern_char x \<Longrightarrow> \<exists>ts. grammar_tokens n t = Inr ts"
proof (induction n t rule: grammar_tokens.induct)
  case (1 cs)
  then show ?case by simp
next
  case (2 n)
  then show ?case by simp
next
  case (3 n c)
  then show ?case by (auto simp: is_pattern_char_def)
next
  case (4 n c d ds)
  from "4.prems" have c: "is_skipped c \<or> c = CHR ''?'' \<or> is_hex_digit c"
    and r: "\<forall>x \<in> set (d # ds). is_pattern_char x" "\<forall>x \<in> set ds. is_pattern_char x"
    by (simp_all add: is_pattern_char_def)
  show ?case
  proof (cases "is_skipped c")
    case True
    with "4.IH"(1) r show ?thesis by simp
  next
    case nsk: False
    show ?thesis
    proof (cases "c = CHR ''?''")
      case w: True
      show ?thesis
      proof (cases "d = CHR ''?''")
        case True
        from token_cons_ex [OF "4.IH"(2) [OF nsk w True r(2)]] nsk w True
        show ?thesis by simp
      next
        case False
        from token_cons_ex [OF "4.IH"(3) [OF nsk w False r(1)]] nsk w False
        show ?thesis by simp
      qed
    next
      case nw: False
      with c nsk have hx: "is_hex_digit c" by simp
      show ?thesis
      proof (cases "is_hex_digit d")
        case True
        from token_cons_ex [OF "4.IH"(4) [OF nsk nw hx True r(2)]] nsk nw hx True
        show ?thesis by simp
      next
        case False
        from token_cons_ex [OF "4.IH"(5) [OF nsk nw hx False r(1)]] nsk nw hx False
        show ?thesis by simp
      qed
    qed
  qed
qed

lemma c_string_clean: "CHR 0x00 \<notin> set t \<Longrightarrow> c_string t = t"
  unfolding c_string_def by (induction t) auto

lemma Pattern_ctor_examples:
  "Pattern_ctor ''1A <2B> ? 4D'' = Inr example_Pattern"
  "Pattern_ctor ''1A 2B ? 4D'' = Inr example_Pattern"
  "Pattern_ctor ''1A '' = Inr (Pattern_of_tokens [byte_token 0x1A])"
  "Pattern_ctor ''1A 2B'' = Inr (Pattern_of_tokens [byte_token 0x1A, byte_token 0x2B])"
  "Pattern_ctor (''1A'' @ CHR 0x09 # ''2B'') = Inl Invalid_hexadecimal"
  "Pattern_ctor ''1a'' = Inl Invalid_hexadecimal"
  "Pattern_ctor ''1A2B3C4''
     = Inr (Pattern_of_tokens [byte_token 0x1A, byte_token 0x2B, byte_token 0x3C, byte_token 0x04])"
  by code_simp+

lemma Pattern_ctor_wildcards_zz:
  "Pattern_ctor (replicate 256 CHR ''?'' @ ''zz'')
     = Inr (Pattern_of_tokens (replicate 128 wildcard_token))"
proof -
  have "c_string (replicate 256 CHR ''?'' @ ''zz'') = replicate 256 CHR ''?'' @ ''zz''"
    by (rule c_string_clean) simp
  then show ?thesis
    using grammar_tokens_wildcards [of 128 "''zz''"]
    by (simp add: Pattern_ctor_refines compile_by_grammar_def MAX_PATTERN_LENGTH_def)
qed

lemma not_pattern_chars:
  "\<not> is_pattern_char CHR ''a''" "\<not> is_pattern_char CHR ''z''" "\<not> is_pattern_char CHR 0x09"
  by (simp_all add: is_pattern_char_def is_skipped_def is_hex_digit_cases)

text \<open>
  C7, as the code has it. The constructor computes exactly the token grammar
  \<^const>\<open>compile_by_grammar\<close>: the text up to its terminator is read from left to right, the
  space character and the characters \<^verbatim>\<open><\<close> and \<^verbatim>\<open>>\<close> are skipped, \<^verbatim>\<open>?\<close> and \<^verbatim>\<open>??\<close> are
  one wildcard token each, one or two characters of \<^verbatim>\<open>0-9A-F\<close> are one byte token. A text
  made of these characters only always compiles. Any other character (a lowercase hex
  digit, a tab, a line break) that the constructor reaches while the pattern holds fewer
  than \<^verbatim>\<open>MAX_PATTERN_LENGTH\<close> tokens makes it throw \<^verbatim>\<open>"Invalid hexadecimal."\<close>, whatever
  follows it, so that no Pattern is built from that text. The space is the only white
  space that is skipped, and a character after the token that fills the pattern is not
  read at all.
\<close>

theorem pattern_grammar:
  "Pattern_ctor aPattern = compile_by_grammar aPattern
   \<and> ((\<forall>x \<in> set (c_string aPattern). is_pattern_char x) \<longrightarrow> (\<exists>p. Pattern_ctor aPattern = Inr p))
   \<and> (Pattern_ctor pre = Inr p \<and> unat (Size p) < MAX_PATTERN_LENGTH \<and> CHR 0x00 \<notin> set pre
        \<and> \<not> is_pattern_char c \<and> c \<noteq> CHR 0x00 \<longrightarrow>
          Pattern_ctor (pre @ c # post) = Inl Invalid_hexadecimal)
   \<and> Pattern_ctor ''?'' = Inr (Pattern_of_tokens [wildcard_token])
   \<and> Pattern_ctor ''??'' = Inr (Pattern_of_tokens [wildcard_token])"
proof (intro conjI impI)
  show "Pattern_ctor aPattern = compile_by_grammar aPattern" by (rule Pattern_ctor_refines)
next
  assume "\<forall>x \<in> set (c_string aPattern). is_pattern_char x"
  from grammar_tokens_succeeds [OF this, of MAX_PATTERN_LENGTH]
  show "\<exists>p. Pattern_ctor aPattern = Inr p"
    by (auto simp: Pattern_ctor_refines compile_by_grammar_def)
next
  assume a: "Pattern_ctor pre = Inr p \<and> unat (Size p) < MAX_PATTERN_LENGTH
      \<and> CHR 0x00 \<notin> set pre \<and> \<not> is_pattern_char c \<and> c \<noteq> CHR 0x00"
  from Pattern_ctor_Inr [of pre p] a obtain ts where
    ts: "grammar_tokens MAX_PATTERN_LENGTH (c_string pre) = Inr ts"
      "p = Pattern_of_tokens ts" "length ts \<le> MAX_PATTERN_LENGTH" by blast
  have lt: "length ts < MAX_PATTERN_LENGTH"
    using a ts Pattern_of_tokens_Size [of ts] by simp
  have cs: "c_string (pre @ c # post) = c_string pre @ c # c_string post"
    using a by (simp add: c_string_append c_string_Cons)
  have "grammar_tokens MAX_PATTERN_LENGTH (c_string (pre @ c # post)) = Inl Invalid_hexadecimal"
    unfolding cs using a by (intro grammar_tokens_fails [OF ts(1) lt]) simp
  then show "Pattern_ctor (pre @ c # post) = Inl Invalid_hexadecimal"
    by (simp add: Pattern_ctor_refines compile_by_grammar_def)
next
  show "Pattern_ctor ''?'' = Inr (Pattern_of_tokens [wildcard_token])"
    by (simp add: Pattern_ctor_refines compile_by_grammar_def c_string_def MAX_PATTERN_LENGTH_def
          numeral_eq_Suc not_skipped_wildcard)
  show "Pattern_ctor ''??'' = Inr (Pattern_of_tokens [wildcard_token])"
    by (simp add: Pattern_ctor_refines compile_by_grammar_def c_string_def MAX_PATTERN_LENGTH_def
          numeral_eq_Suc not_skipped_wildcard token_cons_simps)
qed


theorem pattern_grammar_witness:
  "Pattern_ctor ''1A <2B> ? 4D'' = compile_by_grammar ''1A <2B> ? 4D''
   \<and> compile_by_grammar ''1A <2B> ? 4D'' = Inr example_Pattern
   \<and> list_all is_pattern_char (c_string ''1A <2B> ? 4D'')
   \<and> (\<exists>p. Pattern_ctor ''1A <2B> ? 4D'' = Inr p)
   \<and> Pattern_ctor ''1A '' = Inr (Pattern_of_tokens [byte_token 0x1A])
   \<and> unat (Size (Pattern_of_tokens [byte_token 0x1A])) < MAX_PATTERN_LENGTH
   \<and> CHR 0x00 \<notin> set ''1A ''
   \<and> \<not> is_pattern_char CHR ''a'' \<and> CHR ''a'' \<noteq> CHR 0x00
   \<and> Pattern_ctor (''1A '' @ CHR ''a'' # ''2'') = Inl Invalid_hexadecimal
   \<and> \<not> is_pattern_char CHR 0x09 \<and> CHR 0x09 \<noteq> CHR 0x00
   \<and> Pattern_ctor (''1A '' @ CHR 0x09 # ''2B'') = Inl Invalid_hexadecimal"
proof -
  let ?p = "Pattern_of_tokens [byte_token 0x1A]"
  have c: "Pattern_ctor ''1A '' = Inr ?p" by (rule Pattern_ctor_examples)
  have s: "unat (Size ?p) < MAX_PATTERN_LENGTH"
    by (simp add: Pattern_of_tokens_Size MAX_PATTERN_LENGTH_def)
  have z: "CHR 0x00 \<notin> set ''1A ''" "CHR ''a'' \<noteq> CHR 0x00" "CHR 0x09 \<noteq> CHR 0x00" by simp_all
  note t1 = pattern_grammar [of "''1A <2B> ? 4D''" "''1A ''" ?p "CHR ''a''" "''2''"]
  note t2 = pattern_grammar [of "''1A <2B> ? 4D''" "''1A ''" ?p "CHR 0x09" "''2B''"]
  from t1 have 1: "Pattern_ctor ''1A <2B> ? 4D'' = compile_by_grammar ''1A <2B> ? 4D''" by blast
  from t1 c s z not_pattern_chars
  have 2: "Pattern_ctor (''1A '' @ CHR ''a'' # ''2'') = Inl Invalid_hexadecimal" by blast
  from t2 c s z not_pattern_chars
  have 3: "Pattern_ctor (''1A '' @ CHR 0x09 # ''2B'') = Inl Invalid_hexadecimal" by blast
  have 4: "compile_by_grammar ''1A <2B> ? 4D'' = Inr example_Pattern"
    using 1 Pattern_ctor_examples(1) by simp
  have 5: "list_all is_pattern_char (c_string ''1A <2B> ? 4D'')"
    by (simp add: c_string_def is_pattern_char_def is_skipped_def is_hex_digit_cases)
  from t1 5 have 6: "\<exists>p. Pattern_ctor ''1A <2B> ? 4D'' = Inr p"
    unfolding list_all_iff by blast
  show ?thesis
    using 1 2 3 4 5 6 c s z not_pattern_chars by simp
qed

theorem pattern_grammar_counterexample:
  "Pattern_ctor (''1A'' @ CHR 0x09 # ''2B'') = Inl Invalid_hexadecimal
   \<and> Pattern_ctor ''1A 2B'' = Inr (Pattern_of_tokens [byte_token 0x1A, byte_token 0x2B])
   \<and> \<not> is_pattern_char CHR ''z''
   \<and> Pattern_ctor (replicate 256 CHR ''?'' @ ''zz'')
       = Inr (Pattern_of_tokens (replicate 128 wildcard_token))"
  using Pattern_ctor_examples(4,5) not_pattern_chars(2) Pattern_ctor_wildcards_zz by simp

lemma hex_digit_not_special:
  "is_hex_digit c \<Longrightarrow> c \<noteq> CHR 0x00 \<and> \<not> is_skipped c \<and> c \<noteq> CHR ''?''"
  unfolding is_hex_digit_cases is_skipped_def by (elim disjE) simp_all

lemma hex_value_less_16: "is_hex_digit c \<Longrightarrow> hex_value c < 16"
  unfolding is_hex_digit_cases by (elim disjE) (simp_all add: hex_value_digits)

lemma grammar_tokens_pair:
  "is_hex_digit h \<Longrightarrow> is_hex_digit l \<Longrightarrow>
   grammar_tokens (Suc n) (h # l # ds)
     = token_cons (byte_token (hex_value h * 16 + hex_value l)) (grammar_tokens n ds)"
  using hex_digit_not_special [of h] by simp

lemma grammar_tokens_lone:
  "is_hex_digit d \<Longrightarrow> ds = [] \<or> \<not> is_hex_digit (hd ds) \<Longrightarrow>
   grammar_tokens (Suc n) (d # ds)
     = token_cons (byte_token (hex_value d)) (grammar_tokens n ds)"
proof (cases ds)
  case Nil
  assume "is_hex_digit d"
  then show ?thesis
    using hex_digit_not_special [of d] Nil by (simp add: grammar_tokens_Nil token_cons_simps)
next
  case (Cons a as)
  assume "is_hex_digit d" "ds = [] \<or> \<not> is_hex_digit (hd ds)"
  then show ?thesis
    using hex_digit_not_special [of d] Cons by simp
qed

lemma c_string_hd:
  "c_string rest = [] \<or> (rest \<noteq> [] \<and> hd (c_string rest) = hd rest)"
  by (cases rest) (simp_all add: c_string_def)

lemma grammar_tokens_sep_1A:
  "grammar_tokens 127 (c_string '' 1A'') = Inr [byte_token 0x1A]"
  by code_simp

text \<open>
  C6. Where the constructor meets a hex digit (\<^verbatim>\<open>0-9A-F\<close>) with another hex digit right
  after it, the two make one byte of value \<open>high * 16 + low\<close> and the loop goes on two
  characters further; where the next character is not a hex digit, or the text ends,
  the digit alone makes one byte of value \<open>digit * 1\<close>, and nothing is thrown for it. The
  value of a digit is the one the code computes from the character code, below 16. This
  is stated for the loop at any index, and for the constructor on a text that starts with
  the digits: the rest of the text compiles as it does on its own with one token less of
  capacity. \<^verbatim>\<open>"1A2B3C4"\<close> compiles to the bytes 1A 2B 3C 04.
\<close>

theorem hex_digits_compile:
  "(is_hex_digit h \<and> is_hex_digit l \<longrightarrow>
      Pattern_ctor [h, l] = Inr (Pattern_of_tokens [byte_token (hex_value h * 16 + hex_value l)])
    \<and> Pattern_ctor (h # l # rest)
        = (case grammar_tokens (MAX_PATTERN_LENGTH - 1) (c_string rest) of
             Inl e \<Rightarrow> Inl e
           | Inr ts \<Rightarrow> Inr (Pattern_of_tokens (byte_token (hex_value h * 16 + hex_value l) # ts))))
   \<and> (is_hex_digit d \<and> (rest = [] \<or> \<not> is_hex_digit (hd rest)) \<longrightarrow>
      Pattern_ctor [d] = Inr (Pattern_of_tokens [byte_token (hex_value d)])
    \<and> Pattern_ctor (d # rest)
        = (case grammar_tokens (MAX_PATTERN_LENGTH - 1) (c_string rest) of
             Inl e \<Rightarrow> Inl e
           | Inr ts \<Rightarrow> Inr (Pattern_of_tokens (byte_token (hex_value d) # ts))))
   \<and> (is_hex_digit c \<longrightarrow>
        int (hex_value c) = (if int (of_char c) \<le> CHAR_9 then int (of_char c) - CHAR_0
                             else (int (of_char c) - CHAR_A) + HEXVAL_A)
      \<and> hex_value c < 16
      \<and> Value (byte_token (hex_value c)) = of_nat (hex_value c)
      \<and> \<not> IsWildcard (byte_token (hex_value c)))
   \<and> (i < len \<and> len \<le> length aPattern \<and> char_at aPattern len = 0
        \<and> \<not> Size this \<ge> of_nat MAX_PATTERN_LENGTH \<and> is_hex_digit (aPattern ! i) \<longrightarrow>
        Pattern_loop aPattern len i this j =
         (if i + 1 < len \<and> is_hex_digit (aPattern ! (i + 1))
          then Pattern_loop aPattern len (i + 2)
                 (this\<lparr>Bytes := (Bytes this)
                          [j := byte_token (hex_value (aPattern ! i) * 16 + hex_value (aPattern ! (i + 1)))],
                        Size := Size this + 1\<rparr>) (j + 1)
          else Pattern_loop aPattern len (i + 1)
                 (this\<lparr>Bytes := (Bytes this)[j := byte_token (hex_value (aPattern ! i))],
                        Size := Size this + 1\<rparr>) (j + 1)))
   \<and> Pattern_ctor ''1A2B3C4''
       = Inr (Pattern_of_tokens [byte_token 0x1A, byte_token 0x2B, byte_token 0x3C, byte_token 0x04])"
proof (intro conjI impI)
  assume a: "is_hex_digit h \<and> is_hex_digit l"
  then have nz: "h \<noteq> CHR 0x00" "l \<noteq> CHR 0x00"
    using hex_digit_not_special by blast+
  have m: "MAX_PATTERN_LENGTH = Suc (MAX_PATTERN_LENGTH - 1)"
    by (simp add: MAX_PATTERN_LENGTH_def)
  have g: "grammar_tokens MAX_PATTERN_LENGTH (h # l # ds)
     = token_cons (byte_token (hex_value h * 16 + hex_value l))
         (grammar_tokens (MAX_PATTERN_LENGTH - 1) ds)" for ds
    by (subst m) (rule grammar_tokens_pair, simp_all add: a)
  show "Pattern_ctor [h, l] = Inr (Pattern_of_tokens [byte_token (hex_value h * 16 + hex_value l)])"
    unfolding Pattern_ctor_refines compile_by_grammar_def
    by (simp only: c_string_Cons nz if_False g) (simp add: c_string_def grammar_tokens_Nil token_cons_simps)
  show "Pattern_ctor (h # l # rest)
        = (case grammar_tokens (MAX_PATTERN_LENGTH - 1) (c_string rest) of
             Inl e \<Rightarrow> Inl e
           | Inr ts \<Rightarrow> Inr (Pattern_of_tokens (byte_token (hex_value h * 16 + hex_value l) # ts)))"
    unfolding Pattern_ctor_refines compile_by_grammar_def
    by (simp only: c_string_Cons nz if_False g) (simp add: token_cons_def split: sum.splits)
next
  assume a: "is_hex_digit d \<and> (rest = [] \<or> \<not> is_hex_digit (hd rest))"
  then have nz: "d \<noteq> CHR 0x00"
    using hex_digit_not_special by blast
  have m: "MAX_PATTERN_LENGTH = Suc (MAX_PATTERN_LENGTH - 1)"
    by (simp add: MAX_PATTERN_LENGTH_def)
  have g: "ds = [] \<or> \<not> is_hex_digit (hd ds) \<Longrightarrow> grammar_tokens MAX_PATTERN_LENGTH (d # ds)
     = token_cons (byte_token (hex_value d)) (grammar_tokens (MAX_PATTERN_LENGTH - 1) ds)" for ds
    by (subst m) (rule grammar_tokens_lone, simp_all add: a)
  have r: "c_string rest = [] \<or> \<not> is_hex_digit (hd (c_string rest))"
    using a c_string_hd [of rest] by auto
  show "Pattern_ctor [d] = Inr (Pattern_of_tokens [byte_token (hex_value d)])"
    unfolding Pattern_ctor_refines compile_by_grammar_def
    using g [of "[]"] by (simp add: c_string_Cons nz c_string_def grammar_tokens_Nil token_cons_simps)
  show "Pattern_ctor (d # rest)
        = (case grammar_tokens (MAX_PATTERN_LENGTH - 1) (c_string rest) of
             Inl e \<Rightarrow> Inl e
           | Inr ts \<Rightarrow> Inr (Pattern_of_tokens (byte_token (hex_value d) # ts)))"
    unfolding Pattern_ctor_refines compile_by_grammar_def
    by (simp only: c_string_Cons nz if_False g [OF r]) (simp add: token_cons_def split: sum.splits)
next
  assume a: "is_hex_digit c"
  show "int (hex_value c) = (if int (of_char c) \<le> CHAR_9 then int (of_char c) - CHAR_0
                             else (int (of_char c) - CHAR_A) + HEXVAL_A)"
    using code_digit_value [OF a] by simp
  show "hex_value c < 16" using a by (rule hex_value_less_16)
  show "Value (byte_token (hex_value c)) = of_nat (hex_value c)" by (simp add: byte_token_def)
  show "\<not> IsWildcard (byte_token (hex_value c))" by (simp add: byte_token_def)
next
  assume a: "i < len \<and> len \<le> length aPattern \<and> char_at aPattern len = 0
        \<and> \<not> Size this \<ge> of_nat MAX_PATTERN_LENGTH \<and> is_hex_digit (aPattern ! i)"
  show "Pattern_loop aPattern len i this j =
         (if i + 1 < len \<and> is_hex_digit (aPattern ! (i + 1))
          then Pattern_loop aPattern len (i + 2)
                 (this\<lparr>Bytes := (Bytes this)
                          [j := byte_token (hex_value (aPattern ! i) * 16 + hex_value (aPattern ! (i + 1)))],
                        Size := Size this + 1\<rparr>) (j + 1)
          else Pattern_loop aPattern len (i + 1)
                 (this\<lparr>Bytes := (Bytes this)[j := byte_token (hex_value (aPattern ! i))],
                        Size := Size this + 1\<rparr>) (j + 1))"
    by (rule Pattern_loop_hex) (simp_all add: a)
next
  show "Pattern_ctor ''1A2B3C4''
       = Inr (Pattern_of_tokens [byte_token 0x1A, byte_token 0x2B, byte_token 0x3C, byte_token 0x04])"
    by (rule Pattern_ctor_examples)
qed

theorem hex_digits_compile_witness:
  "is_hex_digit CHR ''A'' \<and> is_hex_digit CHR ''F''
   \<and> Pattern_ctor ''AF'' = Inr (Pattern_of_tokens [byte_token 0xAF])
   \<and> Pattern_ctor ''AF 1A'' = Inr (Pattern_of_tokens [byte_token 0xAF, byte_token 0x1A])
   \<and> is_hex_digit CHR ''4'' \<and> \<not> is_hex_digit (hd '' 1A'')
   \<and> Pattern_ctor ''4'' = Inr (Pattern_of_tokens [byte_token 0x04])
   \<and> Pattern_ctor ''4 1A'' = Inr (Pattern_of_tokens [byte_token 0x04, byte_token 0x1A])
   \<and> int (hex_value CHR ''F'') = int (of_char CHR ''F'') - CHAR_A + HEXVAL_A
   \<and> hex_value CHR ''F'' = 15
   \<and> char_at ''4'' 1 = 0 \<and> \<not> Size Pattern_default \<ge> of_nat MAX_PATTERN_LENGTH
   \<and> Pattern_loop ''4'' 1 0 Pattern_default 0
       = Inr (Pattern_default\<lparr>Bytes := (Bytes Pattern_default)[0 := byte_token 0x04], Size := 1\<rparr>)"
proof -
  have h: "is_hex_digit CHR ''A''" "is_hex_digit CHR ''F''" "is_hex_digit CHR ''4''"
    "\<not> is_hex_digit (hd '' 1A'')"
    by (simp_all add: is_hex_digit_cases)
  have l: "char_at ''4'' 1 = 0" "\<not> Size Pattern_default \<ge> of_nat MAX_PATTERN_LENGTH"
    "(0::nat) < 1" "1 \<le> length ''4''" "is_hex_digit (''4'' ! 0)"
    by (simp_all add: char_at_def Pattern_default_def MAX_PATTERN_LENGTH_def is_hex_digit_cases)
  note t1 = hex_digits_compile
    [of "CHR ''A''" "CHR ''F''" "'' 1A''" "CHR ''4''" "CHR ''F''" 0 1 "''4''" Pattern_default 0]
  from t1 h have 1: "Pattern_ctor ''AF'' = Inr (Pattern_of_tokens [byte_token 0xAF])"
    by (simp add: hex_value_digits)
  from t1 h have 2: "Pattern_ctor ''AF 1A'' = Inr (Pattern_of_tokens [byte_token 0xAF, byte_token 0x1A])"
    by (simp add: hex_value_digits MAX_PATTERN_LENGTH_def grammar_tokens_sep_1A)
  from t1 h have 3: "Pattern_ctor ''4'' = Inr (Pattern_of_tokens [byte_token 0x04])"
    by (simp add: hex_value_digits)
  from t1 h have 4: "Pattern_ctor ''4 1A'' = Inr (Pattern_of_tokens [byte_token 0x04, byte_token 0x1A])"
    by (simp add: hex_value_digits MAX_PATTERN_LENGTH_def grammar_tokens_sep_1A)
  from t1 h have 5: "int (hex_value CHR ''F'') = int (of_char CHR ''F'') - CHAR_A + HEXVAL_A"
    by (simp add: CHAR_9_def)
  from t1 l have "Pattern_loop ''4'' 1 0 Pattern_default 0
      = Pattern_loop ''4'' 1 1
          (Pattern_default\<lparr>Bytes := (Bytes Pattern_default)[0 := byte_token (hex_value CHR ''4'')],
             Size := Size Pattern_default + 1\<rparr>) 1"
    by simp
  then have 6: "Pattern_loop ''4'' 1 0 Pattern_default 0
       = Inr (Pattern_default\<lparr>Bytes := (Bytes Pattern_default)[0 := byte_token 0x04], Size := 1\<rparr>)"
    by (simp add: Pattern_loop_done hex_value_digits Pattern_default_def)
  show ?thesis
    using h l 1 2 3 4 5 6 by (simp add: hex_value_digits)
qed

end
